theory Spec2Isabelle
  imports
    Complex_Main
    "HOL-Library.Word"
    "HOL-Library.Multiset"
    "HOL-Library.Char_ord"
    "HOL-Library.List_Lexorder"
begin

unbundle bit_operations_syntax

section \<open>Numbers\<close>

text \<open>
  Go's \<open>float64\<close>. A value is a finite number, one of the two infinities or NaN.
  Finite arithmetic is exact real arithmetic: rounding to 53 bits, overflow of a finite
  result to an infinity and the sign of zero are not modelled. The special values follow
  IEEE 754: every comparison with NaN is false, \<open>0 / 0\<close>, \<open>Inf - Inf\<close>, \<open>0 * Inf\<close> and
  \<open>Inf / Inf\<close> are NaN, and \<open>x / 0\<close> is an infinity for \<open>x \<noteq> 0\<close>.
\<close>

datatype f64 = Finite real | PosInf | NegInf | NaN

fun f64_neg :: "f64 \<Rightarrow> f64" where
  "f64_neg (Finite a) = Finite (- a)"
| "f64_neg PosInf = NegInf"
| "f64_neg NegInf = PosInf"
| "f64_neg NaN = NaN"

fun f64_add :: "f64 \<Rightarrow> f64 \<Rightarrow> f64" where
  "f64_add NaN _ = NaN"
| "f64_add _ NaN = NaN"
| "f64_add (Finite a) (Finite b) = Finite (a + b)"
| "f64_add PosInf NegInf = NaN"
| "f64_add NegInf PosInf = NaN"
| "f64_add PosInf _ = PosInf"
| "f64_add _ PosInf = PosInf"
| "f64_add NegInf _ = NegInf"
| "f64_add _ NegInf = NegInf"

definition f64_sub :: "f64 \<Rightarrow> f64 \<Rightarrow> f64" where
  "f64_sub a b = f64_add a (f64_neg b)"

fun f64_mul :: "f64 \<Rightarrow> f64 \<Rightarrow> f64" where
  "f64_mul NaN _ = NaN"
| "f64_mul _ NaN = NaN"
| "f64_mul (Finite a) (Finite b) = Finite (a * b)"
| "f64_mul (Finite a) PosInf = (if a = 0 then NaN else if 0 < a then PosInf else NegInf)"
| "f64_mul (Finite a) NegInf = (if a = 0 then NaN else if 0 < a then NegInf else PosInf)"
| "f64_mul PosInf (Finite b) = (if b = 0 then NaN else if 0 < b then PosInf else NegInf)"
| "f64_mul NegInf (Finite b) = (if b = 0 then NaN else if 0 < b then NegInf else PosInf)"
| "f64_mul PosInf PosInf = PosInf"
| "f64_mul PosInf NegInf = NegInf"
| "f64_mul NegInf PosInf = NegInf"
| "f64_mul NegInf NegInf = PosInf"

fun f64_div :: "f64 \<Rightarrow> f64 \<Rightarrow> f64" where
  "f64_div NaN _ = NaN"
| "f64_div _ NaN = NaN"
| "f64_div (Finite a) (Finite b) =
     (if b = 0 then (if a = 0 then NaN else if 0 < a then PosInf else NegInf)
      else Finite (a / b))"
| "f64_div (Finite a) _ = Finite 0"
| "f64_div PosInf (Finite b) = (if 0 \<le> b then PosInf else NegInf)"
| "f64_div NegInf (Finite b) = (if 0 \<le> b then NegInf else PosInf)"
| "f64_div _ _ = NaN"

fun f64_lt :: "f64 \<Rightarrow> f64 \<Rightarrow> bool" where
  "f64_lt NaN _ = False"
| "f64_lt _ NaN = False"
| "f64_lt (Finite a) (Finite b) = (a < b)"
| "f64_lt PosInf _ = False"
| "f64_lt _ NegInf = False"
| "f64_lt NegInf _ = True"
| "f64_lt _ PosInf = True"

definition f64_gt :: "f64 \<Rightarrow> f64 \<Rightarrow> bool" where
  "f64_gt a b = f64_lt b a"

definition f64_le :: "f64 \<Rightarrow> f64 \<Rightarrow> bool" where
  "f64_le a b = (a \<noteq> NaN \<and> b \<noteq> NaN \<and> \<not> f64_lt b a)"

definition f64_of_int :: "int \<Rightarrow> f64" where
  "f64_of_int i = Finite (of_int i)"

text \<open>\<open>math.MaxFloat64\<close>, the largest finite \<open>float64\<close>.\<close>

definition MaxFloat64 :: f64 where
  "MaxFloat64 = Finite (2 ^ 1024 - 2 ^ 971)"

text \<open>
  Go's \<open>int\<close> is a 64-bit two's complement integer. The fields that hold one are
  modelled as \<open>int\<close>; where the source computes with them, \<open>wrap64\<close> writes out the
  wrap-around.
\<close>

definition wrap64 :: "int \<Rightarrow> int" where
  "wrap64 i = sint (word_of_int i :: 64 word)"

section \<open>Data model\<close>

datatype point = Point (px: f64) (py: f64)

text \<open>
  \<open>Tags\<close> and \<open>nearnessTags\<close> are Go maps, kept as association lists read with
  \<open>map_of\<close>. Reading a missing key of \<open>Tags\<close> gives the empty string, as indexing a
  Go \<open>map[string]string\<close> does; a \<open>nil\<close> \<open>nearnessTags\<close> is the empty list.
\<close>

record Item =
  ID :: string
  Tags :: "(string \<times> string) list"
  nearnessTags :: "(string \<times> point) list"

definition tagValue :: "Item \<Rightarrow> string \<Rightarrow> string" where
  "tagValue item name = (case map_of (Tags item) name of None \<Rightarrow> [] | Some v \<Rightarrow> v)"

text \<open>
  \<open>RuleType\<close> is a string type with three named values; \<open>RuleTypeOther\<close> stands for
  every other string, which no \<open>switch\<close> of the source matches.
\<close>

datatype RuleType = RuleTypeSameness | RuleTypeRelationship | RuleTypeNearness | RuleTypeOther string

record Rule =
  TagName :: string
  Type :: RuleType
  Weight :: int

record Group =
  Name :: string
  MinSize :: int
  MaxSize :: int
  Items :: "Item list"

record State =
  Groups :: "Group list"
  ItemsNotInGroups :: "Item list"
  Score :: f64

section \<open>Digests\<close>

text \<open>
  \<open>hash/fnv\<close>'s \<open>New64\<close>: the 64-bit FNV-1 hash. \<open>Write\<close> multiplies by the prime
  and then xors the byte in, for each byte in turn.
\<close>

definition fnv_offset64 :: "64 word" where
  "fnv_offset64 = 14695981039346656037"

definition fnv_prime64 :: "64 word" where
  "fnv_prime64 = 1099511628211"

fun fnv_Write :: "64 word \<Rightarrow> 8 word list \<Rightarrow> 64 word" where
  "fnv_Write h [] = h"
| "fnv_Write h (c # cs) = fnv_Write ((h * fnv_prime64) XOR ucast c) cs"

definition bytes :: "string \<Rightarrow> 8 word list" where
  "bytes s = map of_char s"

text \<open>
  \<open>Group.digest\<close> as in \<open>src/unnamed/part_000\<close>: a copy of the items is sorted by \<open>ID\<close>
  and each \<open>ID\<close> is written to the hash. \<open>sort.Slice\<close> is not stable, but only the
  sequence of \<open>ID\<close>s is hashed, and that sequence is the same whatever the order of items
  with equal \<open>ID\<close>s. Nothing separates one \<open>ID\<close> from the next.
\<close>

definition Group_digest :: "Group \<Rightarrow> 64 word" where
  "Group_digest g =
     (let itemsSorted = sort_key ID (Items g)
      in foldl (\<lambda>h item. fnv_Write h (bytes (ID item))) fnv_offset64 itemsSorted)"

text \<open>
  \<open>binary.PutUvarint\<close>: seven bits at a time, low bits first, the high bit of a byte
  set when more bytes follow. It writes at most ten bytes for a 64-bit value.
\<close>

lemma drop_bit_7_less: "(0x80 :: 64 word) \<le> x \<Longrightarrow> unat (drop_bit 7 x) < unat x"
proof -
  assume "(0x80 :: 64 word) \<le> x"
  then have "0 < unat x"
    by (simp add: word_le_nat_alt)
  then show ?thesis
    by (simp add: drop_bit_eq_div unat_div)
qed

function PutUvarint :: "8 word list \<Rightarrow> nat \<Rightarrow> 64 word \<Rightarrow> 8 word list" where
  "PutUvarint buf i x =
     (if 0x80 \<le> x then PutUvarint (buf[i := ucast x OR 0x80]) (i + 1) (drop_bit 7 x)
      else buf[i := ucast x])"
  by pat_completeness auto
termination
  by (relation "measure (\<lambda>(buf, i, x). unat x)") (auto simp: drop_bit_7_less)

declare PutUvarint.simps [simp del]

text \<open>
  \<open>State.digest\<close>: the group digests are sorted, and each is written as a varint into
  one ten-byte buffer, all ten bytes of which go to the hash. The buffer is not cleared
  between digests.
\<close>

definition State_digest :: "State \<Rightarrow> 64 word" where
  "State_digest s =
     (let digests = sort (map Group_digest (Groups s))
      in fst (foldl (\<lambda>(h, buf) d. let buf' = PutUvarint buf 0 d in (fnv_Write h buf', buf'))
                (fnv_offset64, replicate 10 0) digests))"



section \<open>Failures\<close>

text \<open>
  What a call can do other than return an arrangement: return the configuration error of
  \<open>validateInput\<close>, panic, or never return. \<open>BadConfiguration n slots\<close> carries the two
  numbers of the error message.
\<close>

datatype failure =
    BadConfiguration nat int
  | PanicRelationshipNotImplemented
  | PanicIndexOutOfRange
  | PanicNilDereference
  | NeverReturns

section \<open>Geometry\<close>

text \<open>
  \<open>strings.Split(str, ",")\<close> for the one-byte separator: the pieces between the
  separators, one piece more than there are separators.
\<close>

fun Split :: "string \<Rightarrow> char \<Rightarrow> string list" where
  "Split [] sep = [[]]"
| "Split (c # cs) sep =
     (if c = sep then [] # Split cs sep
      else (let parts = Split cs sep in (c # hd parts) # tl parts))"

text \<open>
  \<open>parsePoint\<close>. The parameter \<open>parseFloat\<close> stands for the library call
  \<open>strconv.ParseFloat(strings.TrimSpace(part), 64)\<close>, with \<open>None\<close> for a non-nil error.
\<close>

definition parsePoint :: "(string \<Rightarrow> f64 option) \<Rightarrow> string \<Rightarrow> point option" where
  "parsePoint parseFloat str =
     (case Split str (CHR '','') of
        [a, b] \<Rightarrow>
          (case parseFloat a of
             None \<Rightarrow> None
           | Some x \<Rightarrow> (case parseFloat b of None \<Rightarrow> None | Some y \<Rightarrow> Some (Point x y)))
      | _ \<Rightarrow> None)"

text \<open>
  \<open>populateNearnessTagPoints\<close> and \<open>clearNearnessTagPoints\<close>. The source updates the
  items in place through their pointers; the model returns the updated items, and every
  state of a run is built from them.
\<close>

definition populateItem :: "(string \<Rightarrow> f64 option) \<Rightarrow> Rule \<Rightarrow> Item \<Rightarrow> Item" where
  "populateItem parseFloat rule item =
     (let val = tagValue item (TagName rule)
      in if val = [] then item
         else (case parsePoint parseFloat val of
                 None \<Rightarrow> item
               | Some p \<Rightarrow> item\<lparr>nearnessTags := (TagName rule, p) # nearnessTags item\<rparr>))"

definition populateNearnessTagPoints ::
    "(string \<Rightarrow> f64 option) \<Rightarrow> Rule list \<Rightarrow> Item list \<Rightarrow> Item list" where
  "populateNearnessTagPoints parseFloat rules its =
     foldl (\<lambda>its rule.
              if Weight rule = 0 \<or> Type rule \<noteq> RuleTypeNearness then its
              else map (populateItem parseFloat rule) its)
       its rules"

definition clearNearnessTagPoints :: "Item list \<Rightarrow> Item list" where
  "clearNearnessTagPoints its = map (\<lambda>item. item\<lparr>nearnessTags := []\<rparr>) its"

text \<open>
  The bounding box of the points seen so far: \<open>(maxX, maxY, minX, minY)\<close>, widened by
  one more point.
\<close>

fun widen :: "f64 \<times> f64 \<times> f64 \<times> f64 \<Rightarrow> point \<Rightarrow> f64 \<times> f64 \<times> f64 \<times> f64" where
  "widen (maxX, maxY, minX, minY) p =
     (if f64_gt (px p) maxX then px p else maxX,
      if f64_gt (py p) maxY then py p else maxY,
      if f64_lt (px p) minX then px p else minX,
      if f64_lt (py p) minY then py p else minY)"

fun boxSize :: "f64 \<times> f64 \<times> f64 \<times> f64 \<Rightarrow> f64" where
  "boxSize (maxX, maxY, minX, minY) = f64_add (f64_sub maxX minX) (f64_sub maxY minY)"

text \<open>\<open>getGroupDistribution\<close>: the loop state is the box and \<open>numPoints\<close>.\<close>

fun groupStep ::
    "string \<Rightarrow> (f64 \<times> f64 \<times> f64 \<times> f64) \<times> nat \<Rightarrow> Item \<Rightarrow> (f64 \<times> f64 \<times> f64 \<times> f64) \<times> nat" where
  "groupStep tagName (box, numPoints) item =
     (case map_of (nearnessTags item) tagName of
        None \<Rightarrow> (box, numPoints)
      | Some p \<Rightarrow>
          if 0 < numPoints then (widen box p, numPoints + 1)
          else ((px p, py p, px p, py p), numPoints + 1))"

definition getGroupDistribution :: "Group \<Rightarrow> string \<Rightarrow> f64 \<times> nat" where
  "getGroupDistribution grp tagName =
     (case foldl (groupStep tagName) ((Finite 0, Finite 0, Finite 0, Finite 0), 0) (Items grp) of
        (box, numPoints) \<Rightarrow>
          if 0 < numPoints then (boxSize box, numPoints) else (Finite 0, numPoints))"

definition getDistribution :: "point list \<Rightarrow> f64" where
  "getDistribution points =
     (case points of
        [] \<Rightarrow> Finite 0
      | p # ps \<Rightarrow> boxSize (foldl widen (px p, py p, px p, py p) ps))"

text \<open>
  \<open>maxDistributionForTag\<close>. The source caches the result per tag name in
  \<open>maxDistributionByTagName\<close>; the items and their tags do not change during a run, so
  the cached value is the computed one and the model computes it.
\<close>

fun tagPoints :: "(string \<Rightarrow> f64 option) \<Rightarrow> string \<Rightarrow> Item list \<Rightarrow> point list" where
  "tagPoints parseFloat tagName [] = []"
| "tagPoints parseFloat tagName (item # its) =
     (let val = tagValue item tagName
      in if val = [] then tagPoints parseFloat tagName its
         else (case parsePoint parseFloat val of
                 None \<Rightarrow> tagPoints parseFloat tagName its
               | Some p \<Rightarrow> p # tagPoints parseFloat tagName its))"

definition maxDistributionForTag :: "(string \<Rightarrow> f64 option) \<Rightarrow> Item list \<Rightarrow> string \<Rightarrow> f64" where
  "maxDistributionForTag parseFloat its tagName = getDistribution (tagPoints parseFloat tagName its)"

section \<open>Scores\<close>

text \<open>
  The \<open>Sameness\<close> case of \<open>CalculateCurrentScore\<close> for one group.
  \<open>tagOccurrencesInGroup\<close> is a Go map from tag value to count, kept as an association
  list with one entry per value; \<open>countUp\<close> is \<open>tagOccurrencesInGroup[val]++\<close>. Go
  ranges over a map in no fixed order; the model adds the entries in the order of their
  first occurrence (each term is finite, so in this model the sum is the same in every
  order).
\<close>

fun countUp :: "string \<Rightarrow> (string \<times> nat) list \<Rightarrow> (string \<times> nat) list" where
  "countUp val [] = [(val, 1)]"
| "countUp val ((k, c) # m) = (if k = val then (k, c + 1) # m else (k, c) # countUp val m)"

definition tagOccurrencesInGroup :: "string \<Rightarrow> Group \<Rightarrow> (string \<times> nat) list" where
  "tagOccurrencesInGroup tagName grp =
     foldl (\<lambda>m item. let val = tagValue item tagName in if val = [] then m else countUp val m)
       [] (Items grp)"

definition samenessGroup :: "Rule \<Rightarrow> f64 \<Rightarrow> Group \<Rightarrow> f64" where
  "samenessGroup rule score grp =
     foldl (\<lambda>score (val, cnt).
              f64_add score
                (f64_mul (f64_of_int (Weight rule))
                   (f64_mul (f64_of_int (int cnt)) (f64_of_int (int cnt)))))
       score (tagOccurrencesInGroup (TagName rule) grp)"

text \<open>The \<open>Nearness\<close> case of \<open>CalculateCurrentScore\<close> for one group.\<close>

definition nearnessGroup ::
    "(string \<Rightarrow> f64 option) \<Rightarrow> Item list \<Rightarrow> Rule \<Rightarrow> f64 \<Rightarrow> Group \<Rightarrow> f64" where
  "nearnessGroup parseFloat its rule score grp =
     (case getGroupDistribution grp (TagName rule) of
        (distribution, numPoints) \<Rightarrow>
          (let distributionRatio =
                 f64_div distribution (maxDistributionForTag parseFloat its (TagName rule))
           in f64_add score
                (f64_mul (f64_mul (f64_of_int (Weight rule)) (f64_of_int (int numPoints)))
                   (f64_sub (Finite 1) distributionRatio))))"

text \<open>
  \<open>CalculateCurrentScore\<close>: the loop over the rules, from the score so far. A
  \<open>Relationship\<close> rule of non-zero weight panics.
\<close>

fun scoreRules ::
    "(string \<Rightarrow> f64 option) \<Rightarrow> Item list \<Rightarrow> State \<Rightarrow> f64 \<Rightarrow> Rule list \<Rightarrow> failure + f64" where
  "scoreRules parseFloat its s score [] = Inr score"
| "scoreRules parseFloat its s score (rule # rules) =
     (if Weight rule = 0 then scoreRules parseFloat its s score rules
      else (case Type rule of
              RuleTypeSameness \<Rightarrow>
                scoreRules parseFloat its s (foldl (samenessGroup rule) score (Groups s)) rules
            | RuleTypeRelationship \<Rightarrow> Inl PanicRelationshipNotImplemented
            | RuleTypeNearness \<Rightarrow>
                scoreRules parseFloat its s
                  (foldl (nearnessGroup parseFloat its rule) score (Groups s)) rules
            | RuleTypeOther t \<Rightarrow> scoreRules parseFloat its s score rules))"

definition CalculateCurrentScore ::
    "(string \<Rightarrow> f64 option) \<Rightarrow> Item list \<Rightarrow> Rule list \<Rightarrow> State \<Rightarrow> failure + f64" where
  "CalculateCurrentScore parseFloat its rules s = scoreRules parseFloat its s (Finite 0) rules"

text \<open>
  The \<open>Nearness\<close> case of \<open>CalculateMaxPotentialScore\<close>. \<open>groupsToFill\<close> holds
  \<open>(distribution, slotsLeft)\<close> for the groups with room. \<open>sort.Slice\<close> promises no order
  among entries that do not compare; the model sorts by stable insertion.
\<close>

fun insertToFill :: "f64 \<times> int \<Rightarrow> (f64 \<times> int) list \<Rightarrow> (f64 \<times> int) list" where
  "insertToFill x [] = [x]"
| "insertToFill x (y # ys) = (if f64_lt (fst y) (fst x) then y # insertToFill x ys else x # y # ys)"

definition groupsToFill :: "string \<Rightarrow> Group list \<Rightarrow> (f64 \<times> int) list" where
  "groupsToFill tagName gs =
     foldr insertToFill
       (concat (map (\<lambda>grp.
                       let distribution = fst (getGroupDistribution grp tagName);
                           slotsLeft = wrap64 (MaxSize grp - int (length (Items grp)))
                       in if 0 < slotsLeft then [(distribution, slotsLeft)] else [])
                  gs))
       []"

fun fillGroups :: "int \<Rightarrow> f64 \<Rightarrow> int \<Rightarrow> f64 \<Rightarrow> (f64 \<times> int) list \<Rightarrow> f64" where
  "fillGroups weight maxDist itemsWithPoints maxScore [] = maxScore"
| "fillGroups weight maxDist itemsWithPoints maxScore ((distribution, slotsLeft) # gs) =
     (if 0 < itemsWithPoints then
        (let numToFill = (if slotsLeft \<le> itemsWithPoints then slotsLeft else itemsWithPoints);
             distributionRatio = f64_div distribution maxDist
         in fillGroups weight maxDist (itemsWithPoints - numToFill)
              (f64_add maxScore
                 (f64_mul (f64_mul (f64_of_int weight) (f64_of_int numToFill))
                    (f64_sub (Finite 1) distributionRatio)))
              gs)
      else maxScore)"

fun potentialRules ::
    "(string \<Rightarrow> f64 option) \<Rightarrow> Item list \<Rightarrow> State \<Rightarrow> f64 \<Rightarrow> Rule list \<Rightarrow> failure + f64" where
  "potentialRules parseFloat its s maxScore [] = Inr maxScore"
| "potentialRules parseFloat its s maxScore (rule # rules) =
     (if Weight rule = 0 then potentialRules parseFloat its s maxScore rules
      else (case Type rule of
              RuleTypeSameness \<Rightarrow>
                if Weight rule < 0 then potentialRules parseFloat its s maxScore rules
                else potentialRules parseFloat its s
                       (f64_add maxScore
                          (f64_of_int (wrap64 (Weight rule * int (length (ItemsNotInGroups s))))))
                       rules
            | RuleTypeRelationship \<Rightarrow> Inl PanicRelationshipNotImplemented
            | RuleTypeNearness \<Rightarrow>
                if Weight rule < 0 then potentialRules parseFloat its s maxScore rules
                else (let itemsWithPoints =
                            int (length (filter (\<lambda>item. map_of (nearnessTags item) (TagName rule) \<noteq> None)
                                           (ItemsNotInGroups s)));
                          maxDist = maxDistributionForTag parseFloat its (TagName rule)
                      in potentialRules parseFloat its s
                           (fillGroups (Weight rule) maxDist itemsWithPoints maxScore
                              (groupsToFill (TagName rule) (Groups s)))
                           rules)
            | RuleTypeOther t \<Rightarrow> potentialRules parseFloat its s maxScore rules))"

definition CalculateMaxPotentialScore ::
    "(string \<Rightarrow> f64 option) \<Rightarrow> Item list \<Rightarrow> Rule list \<Rightarrow> State \<Rightarrow> failure + f64" where
  "CalculateMaxPotentialScore parseFloat its rules s =
     (case CalculateCurrentScore parseFloat its rules s of
        Inl e \<Rightarrow> Inl e
      | Inr maxScore \<Rightarrow> potentialRules parseFloat its s maxScore rules)"

text \<open>
  A group that a terminal state may not have: not empty and below its \<open>MinSize\<close>.
\<close>

definition undersized :: "Group \<Rightarrow> bool" where
  "undersized grp = (0 < length (Items grp) \<and> int (length (Items grp)) < MinSize grp)"

definition IsTerminal :: "State \<Rightarrow> bool" where
  "IsTerminal s = (length (ItemsNotInGroups s) = 0)"

definition CalculateScore ::
    "(string \<Rightarrow> f64 option) \<Rightarrow> Item list \<Rightarrow> Rule list \<Rightarrow> State \<Rightarrow> failure + f64" where
  "CalculateScore parseFloat its rules s =
     (if \<not> IsTerminal s then CalculateMaxPotentialScore parseFloat its rules s
      else if list_ex undersized (Groups s) then Inr (f64_neg MaxFloat64)
      else CalculateCurrentScore parseFloat its rules s)"

section \<open>The search driver\<close>

text \<open>
  \<open>validateInput\<close>. \<open>numSlots\<close> is a Go \<open>int\<close>: each addition wraps around.
\<close>

definition numSlots :: "Group list \<Rightarrow> int" where
  "numSlots gs = foldl (\<lambda>n grp. wrap64 (n + MaxSize grp)) 0 gs"

definition validateInput :: "Item list \<Rightarrow> Group list \<Rightarrow> failure option" where
  "validateInput its gs =
     (if numSlots gs < int (length its) then Some (BadConfiguration (length its) (numSlots gs))
      else None)"

text \<open>
  The step to the next permutation in \<open>getRandomState\<close>: the loop from index \<open>i\<close>
  down to \<open>0\<close>.
\<close>

fun nextPermutation :: "nat \<Rightarrow> nat list \<Rightarrow> nat list" where
  "nextPermutation 0 perm = perm[0 := perm ! 0 + 1]"
| "nextPermutation (Suc i) perm =
     (if perm ! Suc i < length perm - Suc i - 1 then perm[Suc i := perm ! Suc i + 1]
      else nextPermutation i (perm[Suc i := 0]))"

text \<open>
  The swaps \<open>nextPerm[i], nextPerm[i+v] = nextPerm[i+v], nextPerm[i]\<close> for \<open>i, v\<close> over
  the permutation, from index \<open>i\<close> on. An index past the end panics.
\<close>

fun applyPermutation :: "nat \<Rightarrow> nat list \<Rightarrow> Item list \<Rightarrow> failure + Item list" where
  "applyPermutation i [] nextPerm = Inr nextPerm"
| "applyPermutation i (v # vs) nextPerm =
     (if i + v < length nextPerm
      then applyPermutation (i + 1) vs (nextPerm[i := nextPerm ! (i + v), i + v := nextPerm ! i])
      else Inl PanicIndexOutOfRange)"

text \<open>
  The first loop of the scatter: every group in turn takes items until it holds
  \<open>MinSize\<close> of them or none is left. The second argument is \<open>nextPerm[i:]\<close>, the items
  not yet placed.
\<close>

fun fillToMinSize :: "Group \<Rightarrow> Item list \<Rightarrow> Group \<times> Item list" where
  "fillToMinSize grp [] = (grp, [])"
| "fillToMinSize grp (x # rest) =
     (if int (length (Items grp)) < MinSize grp
      then fillToMinSize (grp\<lparr>Items := Items grp @ [x]\<rparr>) rest
      else (grp, x # rest))"

fun fillMinSizes :: "Group list \<Rightarrow> Item list \<Rightarrow> Group list \<times> Item list" where
  "fillMinSizes [] rest = ([], rest)"
| "fillMinSizes (grp # gs) rest =
     (case fillToMinSize grp rest of
        (grp', rest') \<Rightarrow> (case fillMinSizes gs rest' of (gs', rest'') \<Rightarrow> (grp' # gs', rest'')))"

text \<open>
  The second loop: one pass over the groups gives one item to every group that is not
  at \<open>MaxSize\<close>, and stops when no item is left.
\<close>

fun roundRobinPass :: "Group list \<Rightarrow> Item list \<Rightarrow> Group list \<times> Item list" where
  "roundRobinPass [] rest = ([], rest)"
| "roundRobinPass (grp # gs) [] = (grp # gs, [])"
| "roundRobinPass (grp # gs) (x # rest) =
     (if int (length (Items grp)) = MaxSize grp
      then (case roundRobinPass gs (x # rest) of (gs', rest') \<Rightarrow> (grp # gs', rest'))
      else (case roundRobinPass gs rest of
              (gs', rest') \<Rightarrow> (grp\<lparr>Items := Items grp @ [x]\<rparr> # gs', rest')))"

lemma roundRobinPass_length: "length (snd (roundRobinPass gs rest)) \<le> length rest"
proof (induction gs rest rule: roundRobinPass.induct)
  case (3 grp gs x rest)
  then show ?case
    by (auto split: prod.splits)
qed simp_all

text \<open>
  The passes are repeated while items are left. A pass that places no item leaves the
  groups and the items as they were, so the source repeats it for ever: the model
  returns \<open>NeverReturns\<close>.
\<close>

function roundRobin :: "Group list \<Rightarrow> Item list \<Rightarrow> failure + Group list" where
  "roundRobin gs rest =
     (if rest = [] then Inr gs
      else (case roundRobinPass gs rest of
              (gs', rest') \<Rightarrow>
                if length rest' = length rest then Inl NeverReturns else roundRobin gs' rest'))"
  by pat_completeness auto
termination
  apply (relation "measure (\<lambda>(gs, rest). length rest)")
   apply simp
  subgoal for gs rest
    using roundRobinPass_length[of gs rest] by (cases "roundRobinPass gs rest") auto
  done

declare roundRobin.simps [simp del]

text \<open>
  The state that \<open>getRandomState\<close> builds from a permutation: the items in the permuted
  order, scattered over empty copies of the groups, and scored.
\<close>

definition scatter ::
    "(string \<Rightarrow> f64 option) \<Rightarrow> Item list \<Rightarrow> Rule list \<Rightarrow> Group list \<Rightarrow> nat list \<Rightarrow> failure + State" where
  "scatter parseFloat its rules gs perm =
     (case applyPermutation 0 perm its of
        Inl e \<Rightarrow> Inl e
      | Inr nextPerm \<Rightarrow>
          (case fillMinSizes (map (\<lambda>grp. grp\<lparr>Items := []\<rparr>) gs) nextPerm of
             (gs1, rest) \<Rightarrow>
               (case roundRobin gs1 rest of
                  Inl e \<Rightarrow> Inl e
                | Inr gs2 \<Rightarrow>
                    (let s = \<lparr>Groups = gs2, ItemsNotInGroups = [], Score = Finite 0\<rparr>
                     in case CalculateScore parseFloat its rules s of
                          Inl e \<Rightarrow> Inl e
                        | Inr sc \<Rightarrow> Inr (s\<lparr>Score := sc\<rparr>)))))"

text \<open>
  \<open>getRandomState\<close>. \<open>currentPermutation\<close> is \<open>None\<close> for the \<open>nil\<close> slice before the
  first call. The result is the state, or \<open>None\<close> for the \<open>nil\<close> state of an exhausted
  enumeration, and the new \<open>currentPermutation\<close>. With no item the second call reads
  \<open>currentPermutation[0]\<close> of an empty slice and panics.
\<close>

definition getRandomState ::
    "(string \<Rightarrow> f64 option) \<Rightarrow> Item list \<Rightarrow> Rule list \<Rightarrow> Group list \<Rightarrow> nat list option
       \<Rightarrow> failure + (State option \<times> nat list)" where
  "getRandomState parseFloat its rules gs currentPermutation =
     (case currentPermutation of
        None \<Rightarrow>
          (let perm = replicate (length its) 0
           in case scatter parseFloat its rules gs perm of
                Inl e \<Rightarrow> Inl e
              | Inr s \<Rightarrow> Inr (Some s, perm))
      | Some perm \<Rightarrow>
          (let perm' = (if perm = [] then perm else nextPermutation (length perm - 1) perm)
           in if perm' = [] then Inl PanicIndexOutOfRange
              else if length perm' \<le> perm' ! 0 then Inr (None, perm')
              else (case scatter parseFloat its rules gs perm' of
                      Inl e \<Rightarrow> Inl e
                    | Inr s \<Rightarrow> Inr (Some s, perm'))))"

text \<open>
  \<open>State.Copy\<close>: new containers over the same items. As values the groups and the
  unplaced items of the copy are those of the original; \<open>Score\<close> is not copied and is
  the zero value.
\<close>

definition State_Copy :: "State \<Rightarrow> State" where
  "State_Copy s = \<lparr>Groups = Groups s, ItemsNotInGroups = ItemsNotInGroups s, Score = Finite 0\<rparr>"

text \<open>
  The swap \<open>g1.Items[i], g2.Items[i2] = g2.Items[i2], g1.Items[i]\<close> in the groups
  \<open>gIndex1\<close> and \<open>gIndex2\<close> of a state.
\<close>

definition swapItems :: "nat \<Rightarrow> nat \<Rightarrow> nat \<Rightarrow> nat \<Rightarrow> State \<Rightarrow> State" where
  "swapItems gIndex1 i gIndex2 i2 st =
     (let g1 = Groups st ! gIndex1; g2 = Groups st ! gIndex2
      in st\<lparr>Groups := (Groups st)[gIndex1 := g1\<lparr>Items := (Items g1)[i := Items g2 ! i2]\<rparr>,
                                  gIndex2 := g2\<lparr>Items := (Items g2)[i2 := Items g1 ! i]\<rparr>]\<rparr>)"

text \<open>
  The swap loop of \<open>getBestNextStateFrom\<close> over \<open>i2\<close>. The variables \<open>g1\<close> and \<open>g2\<close>
  are bound before the loop, to groups of the state that \<open>s\<close> then is. When a swap
  improves the score, that state becomes \<open>bestOption\<close> and \<open>s\<close> becomes a fresh copy of
  \<open>sourceState\<close>, but \<open>g1\<close> and \<open>g2\<close> still point into the former: the later swaps of the
  loop exchange items of \<open>bestOption\<close> while the score is computed from the fresh \<open>s\<close>.
  The owner says whose groups \<open>g1\<close> and \<open>g2\<close> are: those of \<open>s\<close>, those of
  \<open>bestOption\<close>, or those of a state that nothing refers to any more.
\<close>

datatype owner = OwnerS | OwnerBestOption | OwnerGarbage

fun swapLoop ::
    "(string \<Rightarrow> f64 option) \<Rightarrow> Item list \<Rightarrow> Rule list \<Rightarrow> State \<Rightarrow> nat \<Rightarrow> nat \<Rightarrow> nat \<Rightarrow> owner
       \<Rightarrow> nat list \<Rightarrow> State \<Rightarrow> State \<Rightarrow> failure + (State \<times> State)" where
  "swapLoop parseFloat its rules sourceState gIndex1 i gIndex2 own [] bestOption s =
     Inr (bestOption, s)"
| "swapLoop parseFloat its rules sourceState gIndex1 i gIndex2 own (i2 # later) bestOption s =
     (let s1 = (if own = OwnerS then swapItems gIndex1 i gIndex2 i2 s else s);
          best1 = (if own = OwnerBestOption then swapItems gIndex1 i gIndex2 i2 bestOption
                   else bestOption)
      in case CalculateScore parseFloat its rules s1 of
           Inl e \<Rightarrow> Inl e
         | Inr sc \<Rightarrow>
             if f64_gt sc (Score best1)
             then swapLoop parseFloat its rules sourceState gIndex1 i gIndex2
                    (if own = OwnerS then OwnerBestOption else OwnerGarbage) later
                    (s1\<lparr>Score := sc\<rparr>) (State_Copy sourceState)
             else swapLoop parseFloat its rules sourceState gIndex1 i gIndex2 own later
                    (if own = OwnerBestOption then swapItems gIndex1 i gIndex2 i2 best1 else best1)
                    (if own = OwnerS then swapItems gIndex1 i gIndex2 i2 (s1\<lparr>Score := sc\<rparr>)
                     else s1\<lparr>Score := sc\<rparr>))"

text \<open>
  The move of item \<open>i\<close> of group \<open>gIndex1\<close> into group \<open>gIndex2\<close>: the item is
  appended to \<open>g2.Items\<close>, and deleted from a copy of \<open>g1.Items\<close> by overwriting it with
  the last item and dropping the last.
\<close>

definition moveItem :: "nat \<Rightarrow> nat \<Rightarrow> nat \<Rightarrow> State \<Rightarrow> State" where
  "moveItem gIndex1 i gIndex2 st =
     (let g1 = Groups st ! gIndex1; g2 = Groups st ! gIndex2
      in st\<lparr>Groups := (Groups st)[gIndex1 := g1\<lparr>Items := butlast ((Items g1)[i := last (Items g1)])\<rparr>,
                                  gIndex2 := g2\<lparr>Items := Items g2 @ [Items g1 ! i]\<rparr>]\<rparr>)"

text \<open>
  The body of the loop over \<open>gIndex2\<close>: nothing for the group of the item itself, a
  move into a group with room, the swap loop for a full group. The result is the new
  \<open>bestOption\<close> and the new \<open>s\<close>. After a move that does not improve the score the
  two \<open>Items\<close> slices are put back, and \<open>s\<close> keeps the score of the move.
\<close>

definition tryGroup ::
    "(string \<Rightarrow> f64 option) \<Rightarrow> Item list \<Rightarrow> Rule list \<Rightarrow> State \<Rightarrow> nat \<Rightarrow> nat \<Rightarrow> nat
       \<Rightarrow> State \<Rightarrow> State \<Rightarrow> failure + (State \<times> State)" where
  "tryGroup parseFloat its rules sourceState gIndex1 i gIndex2 bestOption s =
     (let g2 = Groups s ! gIndex2
      in if gIndex1 = gIndex2 then Inr (bestOption, s)
         else if int (length (Items g2)) < MaxSize g2 then
           (let s1 = moveItem gIndex1 i gIndex2 s
            in case CalculateScore parseFloat its rules s1 of
                 Inl e \<Rightarrow> Inl e
               | Inr sc \<Rightarrow>
                   if f64_gt sc (Score bestOption)
                   then Inr (s1\<lparr>Score := sc\<rparr>, State_Copy sourceState)
                   else Inr (bestOption, s\<lparr>Score := sc\<rparr>))
         else swapLoop parseFloat its rules sourceState gIndex1 i gIndex2 OwnerS
                [0..<length (Items g2)] bestOption s)"

fun g2Loop ::
    "(string \<Rightarrow> f64 option) \<Rightarrow> Item list \<Rightarrow> Rule list \<Rightarrow> State \<Rightarrow> nat \<Rightarrow> nat \<Rightarrow> nat list
       \<Rightarrow> State \<Rightarrow> State \<Rightarrow> failure + (State \<times> State)" where
  "g2Loop parseFloat its rules sourceState gIndex1 i [] bestOption s = Inr (bestOption, s)"
| "g2Loop parseFloat its rules sourceState gIndex1 i (gIndex2 # later) bestOption s =
     (case tryGroup parseFloat its rules sourceState gIndex1 i gIndex2 bestOption s of
        Inl e \<Rightarrow> Inl e
      | Inr (bestOption', s') \<Rightarrow> g2Loop parseFloat its rules sourceState gIndex1 i later bestOption' s')"

text \<open>The number of items in group \<open>k\<close> of a state.\<close>

definition rowLen :: "State \<Rightarrow> nat \<Rightarrow> nat" where
  "rowLen st k = length (Items (Groups st ! k))"

lemma rowLen_Score [simp]: "rowLen (st\<lparr>Score := sc\<rparr>) = rowLen st"
  by (simp add: rowLen_def fun_eq_iff)

lemma rowLen_State_Copy [simp]: "rowLen (State_Copy st) = rowLen st"
  by (simp add: rowLen_def State_Copy_def fun_eq_iff)

lemma length_Items_update:
  "length (Items v) = length (Items (xs ! j))
   \<Longrightarrow> length (Items (xs[j := v] ! k)) = length (Items (xs ! k))"
  by (cases "j < length xs") (auto simp: nth_list_update list_update_beyond)

lemma rowLen_swapItems [simp]: "rowLen (swapItems gIndex1 i gIndex2 i2 st) = rowLen st"
proof
  fix k
  let ?A = "(Groups st ! gIndex1)\<lparr>Items := (Items (Groups st ! gIndex1))[i := Items (Groups st ! gIndex2) ! i2]\<rparr>"
  let ?B = "(Groups st ! gIndex2)\<lparr>Items := (Items (Groups st ! gIndex2))[i2 := Items (Groups st ! gIndex1) ! i]\<rparr>"
  have "length (Items ?B) = length (Items ((Groups st)[gIndex1 := ?A] ! gIndex2))"
    by (simp add: length_Items_update)
  then have "length (Items ((Groups st)[gIndex1 := ?A, gIndex2 := ?B] ! k))
               = length (Items ((Groups st)[gIndex1 := ?A] ! k))"
    by (rule length_Items_update)
  also have "\<dots> = length (Items (Groups st ! k))"
    by (simp add: length_Items_update)
  finally show "rowLen (swapItems gIndex1 i gIndex2 i2 st) k = rowLen st k"
    by (simp add: rowLen_def swapItems_def Let_def)
qed

lemma swapLoop_rowLen:
  "swapLoop parseFloat its rules sourceState gIndex1 i gIndex2 own i2s bestOption s = Inr (bestOption', s')
   \<Longrightarrow> rowLen s' = rowLen s \<or> rowLen s' = rowLen sourceState"
proof (induction i2s arbitrary: own bestOption s)
  case Nil
  then show ?case by simp
next
  case (Cons i2 i2s)
  then show ?case
    by (fastforce simp: Let_def split: sum.splits if_splits)
qed

lemma tryGroup_rowLen:
  "tryGroup parseFloat its rules sourceState gIndex1 i gIndex2 bestOption s = Inr (bestOption', s')
   \<Longrightarrow> rowLen s' = rowLen s \<or> rowLen s' = rowLen sourceState"
  unfolding tryGroup_def Let_def
  by (auto split: if_splits sum.splits dest: swapLoop_rowLen)

lemma g2Loop_rowLen:
  "g2Loop parseFloat its rules sourceState gIndex1 i g2s bestOption s = Inr (bestOption', s')
   \<Longrightarrow> rowLen s' = rowLen s \<or> rowLen s' = rowLen sourceState"
proof (induction g2s arbitrary: bestOption s)
  case Nil
  then show ?case by simp
next
  case (Cons gIndex2 g2s)
  then show ?case
    by (fastforce split: sum.splits prod.splits dest: tryGroup_rowLen)
qed

text \<open>
  The loop over \<open>i\<close>, whose condition \<open>i < len(s.Groups[gIndex1].Items)\<close> is read from
  the \<open>s\<close> of the moment. The loop over \<open>gIndex2\<close> ranges over the groups of the \<open>s\<close>
  it starts with. Both loops leave in \<open>s\<close> a state with as many items in every group
  as before or as in \<open>sourceState\<close>, which is why the loop over \<open>i\<close> ends.
\<close>

function iLoop ::
    "(string \<Rightarrow> f64 option) \<Rightarrow> Item list \<Rightarrow> Rule list \<Rightarrow> State \<Rightarrow> nat \<Rightarrow> nat
       \<Rightarrow> State \<Rightarrow> State \<Rightarrow> failure + (State \<times> State)" where
  "iLoop parseFloat its rules sourceState gIndex1 i bestOption s =
     (if i < length (Items (Groups s ! gIndex1)) then
        (case g2Loop parseFloat its rules sourceState gIndex1 i [0..<length (Groups s)] bestOption s of
           Inl e \<Rightarrow> Inl e
         | Inr (bestOption', s') \<Rightarrow> iLoop parseFloat its rules sourceState gIndex1 (i + 1) bestOption' s')
      else Inr (bestOption, s))"
  by pat_completeness auto
termination
  apply (relation "measure (\<lambda>(parseFloat, its, rules, sourceState, gIndex1, i, bestOption, s).
                      max (rowLen s gIndex1) (rowLen sourceState gIndex1) - i)")
   apply simp
  subgoal for parseFloat its rules sourceState gIndex1 i bestOption s x bestOption' s'
  proof -
    assume a: "i < length (Items (Groups s ! gIndex1))"
      and b: "g2Loop parseFloat its rules sourceState gIndex1 i [0..<length (Groups s)] bestOption s = Inr x"
      and c: "(bestOption', s') = x"
    from b c have "rowLen s' = rowLen s \<or> rowLen s' = rowLen sourceState"
      by (auto dest: g2Loop_rowLen)
    then have "rowLen s' gIndex1 = rowLen s gIndex1 \<or> rowLen s' gIndex1 = rowLen sourceState gIndex1"
      by auto
    moreover from a have "i < rowLen s gIndex1"
      by (simp add: rowLen_def)
    ultimately show ?thesis
      by auto
  qed
  done

declare iLoop.simps [simp del]


fun g1Loop ::
    "(string \<Rightarrow> f64 option) \<Rightarrow> Item list \<Rightarrow> Rule list \<Rightarrow> State \<Rightarrow> nat list
       \<Rightarrow> State \<Rightarrow> State \<Rightarrow> failure + (State \<times> State)" where
  "g1Loop parseFloat its rules sourceState [] bestOption s = Inr (bestOption, s)"
| "g1Loop parseFloat its rules sourceState (gIndex1 # later) bestOption s =
     (case iLoop parseFloat its rules sourceState gIndex1 0 bestOption s of
        Inl e \<Rightarrow> Inl e
      | Inr (bestOption', s') \<Rightarrow> g1Loop parseFloat its rules sourceState later bestOption' s')"

text \<open>
  \<open>getBestNextStateFrom\<close>: \<open>bestOption\<close> starts as \<open>sourceState\<close>, \<open>s\<close> as a copy of
  it, and the loop over \<open>gIndex1\<close> ranges over the groups of that copy.
\<close>

definition getBestNextStateFrom ::
    "(string \<Rightarrow> f64 option) \<Rightarrow> Item list \<Rightarrow> Rule list \<Rightarrow> State \<Rightarrow> failure + State" where
  "getBestNextStateFrom parseFloat its rules sourceState =
     (let s = State_Copy sourceState
      in case g1Loop parseFloat its rules sourceState [0..<length (Groups s)] sourceState s of
           Inl e \<Rightarrow> Inl e
         | Inr (bestOption, s') \<Rightarrow> Inr bestOption)"

text \<open>
  For the termination of the main loop: how far each digit of \<open>currentPermutation\<close> is
  from its bound. A step to the next permutation that does not exhaust the enumeration
  lowers this list in the lexicographic order.
\<close>

definition slack :: "nat list \<Rightarrow> nat list" where
  "slack perm =
     map (\<lambda>j. (if j = 0 then length perm else length perm - j - 1) - perm ! j) [0..<length perm]"

lemma length_nextPermutation [simp]: "length (nextPermutation i perm) = length perm"
  by (induction i arbitrary: perm) simp_all

lemma nextPermutation_step:
  "i < length perm \<Longrightarrow>
   \<exists>j\<le>i. take j (nextPermutation i perm) = take j perm
          \<and> nextPermutation i perm ! j = perm ! j + 1
          \<and> (j = 0 \<or> perm ! j < length perm - j - 1)"
proof (induction i arbitrary: perm)
  case 0
  then show ?case by simp
next
  case (Suc i)
  show ?case
  proof (cases "perm ! Suc i < length perm - Suc i - 1")
    case True
    with Suc.prems show ?thesis
      by (intro exI[of _ "Suc i"]) simp
  next
    case False
    from Suc.prems have "i < length (perm[Suc i := 0])"
      by simp
    from Suc.IH[OF this] obtain j where j: "j \<le> i"
      "take j (nextPermutation i (perm[Suc i := 0])) = take j (perm[Suc i := 0])"
      "nextPermutation i (perm[Suc i := 0]) ! j = perm[Suc i := 0] ! j + 1"
      "j = 0 \<or> perm[Suc i := 0] ! j < length (perm[Suc i := 0]) - j - 1"
      by blast
    with False show ?thesis
      by (intro exI[of _ j]) (auto simp: take_update_cancel)
  qed
qed

lemma slack_decreases:
  assumes "perm \<noteq> []" and "nextPermutation (length perm - 1) perm ! 0 < length perm"
  shows "(slack (nextPermutation (length perm - 1) perm), slack perm) \<in> lex less_than"
proof -
  let ?p = "nextPermutation (length perm - 1) perm"
  let ?n = "length perm"
  from assms(1) have "?n - 1 < ?n"
    by (cases perm) simp_all
  from nextPermutation_step[OF this] obtain j where j: "j \<le> ?n - 1"
    "take j ?p = take j perm" "?p ! j = perm ! j + 1" "j = 0 \<or> perm ! j < ?n - j - 1"
    by blast
  from j(1) \<open>?n - 1 < ?n\<close> have jn: "j < ?n" by simp
  let ?b = "\<lambda>j. if j = 0 then ?n else ?n - j - 1"
  have len: "length (slack ?p) = length (slack perm)"
    by (simp add: slack_def)
  have pre: "take j (slack ?p) = take j (slack perm)"
  proof (rule nth_equalityI)
    show "length (take j (slack ?p)) = length (take j (slack perm))"
      by (simp add: slack_def)
  next
    fix l assume "l < length (take j (slack ?p))"
    then have l: "l < j" "l < ?n" by (simp_all add: slack_def)
    from j(2) l(1) have "?p ! l = perm ! l"
      by (metis nth_take)
    with l jn show "take j (slack ?p) ! l = take j (slack perm) ! l"
      by (simp add: slack_def)
  qed
  have lt: "slack ?p ! j < slack perm ! j"
  proof (cases "j = 0")
    case True
    with assms(2) j(3) jn show ?thesis
      by (simp add: slack_def)
  next
    case False
    with j(3,4) jn show ?thesis
      by (simp add: slack_def)
  qed
  have "slack ?p = take j (slack ?p) @ slack ?p ! j # drop (Suc j) (slack ?p)"
    using jn by (intro id_take_nth_drop) (simp add: slack_def)
  moreover have "slack perm = take j (slack perm) @ slack perm ! j # drop (Suc j) (slack perm)"
    using jn by (intro id_take_nth_drop) (simp add: slack_def)
  ultimately show ?thesis
    using len pre lt unfolding lex_conv by (simp; metis)
qed


lemma getRandomState_slack:
  assumes "getRandomState parseFloat its rules gs (Some perm) = Inr (Some next', perm')"
  shows "(slack perm', slack perm) \<in> lex less_than"
proof -
  let ?p = "if perm = [] then perm else nextPermutation (length perm - 1) perm"
  from assms have ne: "?p \<noteq> []" and lt: "\<not> length ?p \<le> ?p ! 0" and eq: "perm' = ?p"
    by (auto simp: getRandomState_def Let_def split: if_splits sum.splits)
  from ne have "perm \<noteq> []"
    by auto
  with lt eq show ?thesis
    using slack_decreases[of perm] by simp
qed

text \<open>
  The main loop of \<open>run\<close>. \<open>ctxDone k\<close> says whether the context is done when
  \<open>quitting\<close> is called for the \<open>k\<close>-th time (counted from 0). \<open>statesTried\<close> is the set
  of digests. The loop ends because every turn either takes the next permutation or adds
  a new digest to \<open>statesTried\<close>.
\<close>

function runLoop ::
    "(string \<Rightarrow> f64 option) \<Rightarrow> (nat \<Rightarrow> bool) \<Rightarrow> Item list \<Rightarrow> Rule list \<Rightarrow> Group list
       \<Rightarrow> nat \<Rightarrow> State \<Rightarrow> State \<Rightarrow> 64 word set \<Rightarrow> nat list \<Rightarrow> failure + State" where
  "runLoop parseFloat ctxDone its rules gs k next bestState statesTried currentPermutation =
     (if ctxDone k then Inr bestState
      else (let digest = State_digest next
            in if digest \<in> statesTried then
                 (case getRandomState parseFloat its rules gs (Some currentPermutation) of
                    Inl e \<Rightarrow> Inl e
                  | Inr (None, perm') \<Rightarrow> Inr bestState
                  | Inr (Some next', perm') \<Rightarrow>
                      runLoop parseFloat ctxDone its rules gs (k + 1) next' bestState statesTried perm')
               else
                 (case getBestNextStateFrom parseFloat its rules next of
                    Inl e \<Rightarrow> Inl e
                  | Inr bestOption \<Rightarrow>
                      if f64_gt (Score bestOption) (Score next)
                      then runLoop parseFloat ctxDone its rules gs (k + 1) bestOption bestState
                             (insert digest statesTried) currentPermutation
                      else (let bestState' =
                                  (if f64_gt (Score next) (Score bestState) then next else bestState)
                            in case getRandomState parseFloat its rules gs (Some currentPermutation) of
                                 Inl e \<Rightarrow> Inl e
                               | Inr (None, perm') \<Rightarrow> Inr bestState'
                               | Inr (Some next', perm') \<Rightarrow>
                                   runLoop parseFloat ctxDone its rules gs (k + 1) next' bestState'
                                     (insert digest statesTried) perm'))))"
  by pat_completeness auto
termination
proof (relation "inv_image (lex less_than <*lex*> less_than)
         (\<lambda>(parseFloat, ctxDone, its, rules, gs, k, next, bestState, statesTried, currentPermutation).
            (slack currentPermutation, card (- statesTried)))", goal_cases)
  case 1
  show ?case
    by (intro wf_inv_image wf_lex_prod wf_lex wf_less_than)
next
  case (2 parseFloat ctxDone its rules gs k "next" bestState statesTried currentPermutation)
  then show ?case
    by (auto dest: getRandomState_slack)
next
  case (3 parseFloat ctxDone its rules gs k "next" bestState statesTried currentPermutation x b)
  from 3(3) have "- insert x statesTried \<subset> - statesTried"
    by auto
  then have "card (- insert x statesTried) < card (- statesTried)"
    by (intro psubset_card_mono) simp_all
  then show ?case
    by simp
next
  case (4 parseFloat ctxDone its rules gs k "next" bestState statesTried currentPermutation)
  from 4(7,8,9) show ?case
    by (auto dest: getRandomState_slack)
qed

declare runLoop.simps [simp del]

text \<open>
  \<open>run\<close>. The deferred \<open>clearNearnessTagPoints\<close> empties \<open>nearnessTags\<close> of the
  items of the run, which are the items the returned groups hold.
\<close>

definition clearGroups :: "Group list \<Rightarrow> Group list" where
  "clearGroups gs = map (\<lambda>grp. grp\<lparr>Items := clearNearnessTagPoints (Items grp)\<rparr>) gs"

definition run ::
    "(string \<Rightarrow> f64 option) \<Rightarrow> (nat \<Rightarrow> bool) \<Rightarrow> Item list \<Rightarrow> Rule list \<Rightarrow> Group list
       \<Rightarrow> failure + Group list" where
  "run parseFloat ctxDone its rules gs =
     (case validateInput its gs of
        Some err \<Rightarrow> Inl err
      | None \<Rightarrow>
          (let its' = populateNearnessTagPoints parseFloat rules its
           in case getRandomState parseFloat its' rules gs None of
                Inl e \<Rightarrow> Inl e
              | Inr (None, perm) \<Rightarrow> Inl PanicNilDereference
              | Inr (Some next, perm) \<Rightarrow>
                  (case runLoop parseFloat ctxDone its' rules gs 0 next next {} perm of
                     Inl e \<Rightarrow> Inl e
                   | Inr bestState \<Rightarrow> Inr (clearGroups (Groups bestState)))))"


section \<open>Stand-ins for the examples\<close>

text \<open>
  Two contexts: \<open>context.Background()\<close>, which is never done, and a context that is
  done from the \<open>n\<close>-th call of \<open>quitting\<close> on.
\<close>

definition background :: "nat \<Rightarrow> bool" where
  "background k = False"

definition doneAfter :: "nat \<Rightarrow> nat \<Rightarrow> bool" where
  "doneAfter n k = (n \<le> k)"

text \<open>
  A stand-in for the library call in the examples: it trims blanks and reads a string of
  decimal digits, on which it agrees with \<open>strconv.ParseFloat\<close> after
  \<open>strings.TrimSpace\<close>, and fails on every other string.
\<close>

definition isDigit :: "char \<Rightarrow> bool" where
  "isDigit c = (CHR ''0'' \<le> c \<and> c \<le> CHR ''9'')"

definition parseDecimal :: "string \<Rightarrow> f64 option" where
  "parseDecimal str =
     (let t = rev (dropWhile (\<lambda>c. c = CHR '' '') (rev (dropWhile (\<lambda>c. c = CHR '' '') str)))
      in if t \<noteq> [] \<and> list_all isDigit t
         then Some (Finite (of_nat (foldl (\<lambda>n c. 10 * n + (of_char c - 48)) 0 t)))
         else None)"



section \<open>Notions for the statements\<close>

text \<open>
  The multiset of the items that the groups hold.
\<close>

definition placed :: "Group list \<Rightarrow> Item multiset" where
  "placed G = sum_list (map (\<lambda>grp. mset (Items grp)) G)"

text \<open>
  The groups after the swap of \<open>swapItems\<close>, and after the move of \<open>moveItem\<close>.
\<close>

definition swapped :: "nat \<Rightarrow> nat \<Rightarrow> nat \<Rightarrow> nat \<Rightarrow> Group list \<Rightarrow> Group list" where
  "swapped gIndex1 i gIndex2 i2 G =
     G[gIndex1 := (G ! gIndex1)\<lparr>Items := (Items (G ! gIndex1))[i := Items (G ! gIndex2) ! i2]\<rparr>,
       gIndex2 := (G ! gIndex2)\<lparr>Items := (Items (G ! gIndex2))[i2 := Items (G ! gIndex1) ! i]\<rparr>]"

definition moved :: "nat \<Rightarrow> nat \<Rightarrow> nat \<Rightarrow> Group list \<Rightarrow> Group list" where
  "moved gIndex1 i gIndex2 G =
     G[gIndex1 := (G ! gIndex1)\<lparr>Items := butlast ((Items (G ! gIndex1))[i := last (Items (G ! gIndex1))])\<rparr>,
       gIndex2 := (G ! gIndex2)\<lparr>Items := Items (G ! gIndex2) @ [Items (G ! gIndex1) ! i]\<rparr>]"

text \<open>
  The groups \<open>G'\<close> are \<open>G\<close> itself or \<open>G\<close> after one move or one swap that
  \<open>getBestNextStateFrom\<close> tries: an item of one group moved into another group that has
  room, or exchanged with an item of another group.
\<close>

definition neighbourOf :: "Group list \<Rightarrow> Group list \<Rightarrow> bool" where
  "neighbourOf G G' =
     (G' = G \<or>
      (\<exists>gIndex1 gIndex2 i.
          gIndex1 < length G \<and> gIndex2 < length G \<and> gIndex1 \<noteq> gIndex2
        \<and> i < length (Items (G ! gIndex1))
        \<and> ((int (length (Items (G ! gIndex2))) < MaxSize (G ! gIndex2)
              \<and> G' = moved gIndex1 i gIndex2 G)
           \<or> (\<exists>i2. i2 < length (Items (G ! gIndex2)) \<and> G' = swapped gIndex1 i gIndex2 i2 G))))"

text \<open>
  What \<open>getBestNextStateFrom\<close> can return from \<open>src\<close>: \<open>src\<close> itself, or a state
  whose groups are a neighbour of those of \<open>src\<close> and whose \<open>Score\<close> is its computed score.
\<close>

definition goodOption ::
    "(string \<Rightarrow> f64 option) \<Rightarrow> Item list \<Rightarrow> Rule list \<Rightarrow> State \<Rightarrow> State \<Rightarrow> bool" where
  "goodOption parseFloat its rules src b =
     (b = src \<or>
      (CalculateScore parseFloat its rules b = Inr (Score b)
       \<and> ItemsNotInGroups b = ItemsNotInGroups src
       \<and> neighbourOf (Groups src) (Groups b)))"

text \<open>
  The capacity contract of each group: what the caller supplies and the search never
  changes.
\<close>

definition templates :: "Group list \<Rightarrow> (string \<times> int \<times> int) list" where
  "templates G = map (\<lambda>grp. (Name grp, MinSize grp, MaxSize grp)) G"

text \<open>No group holds more items than its \<open>MaxSize\<close>.\<close>

definition withinMax :: "Group list \<Rightarrow> bool" where
  "withinMax G = list_all (\<lambda>grp. int (length (Items grp)) \<le> MaxSize grp) G"

text \<open>
  A capacity contract that the first loop of the scatter can honour without exceeding
  \<open>MaxSize\<close>: no negative \<open>MaxSize\<close>, and no \<open>MinSize\<close> above \<open>MaxSize\<close>.
\<close>

definition saneSizes :: "Group list \<Rightarrow> bool" where
  "saneSizes gs = list_all (\<lambda>grp. 0 \<le> MaxSize grp \<and> MinSize grp \<le> MaxSize grp) gs"



text \<open>
  Two items with the value \<open>x\<close> for the tag \<open>t\<close>, one rule that keeps equal values of
  \<open>t\<close> together, and two groups of at most two items.
\<close>

abbreviation exItem :: "string \<Rightarrow> Item" where
  "exItem n \<equiv> \<lparr>ID = n, Tags = [(''t'', ''x'')], nearnessTags = []\<rparr>"

abbreviation exGroup :: "string \<Rightarrow> Item list \<Rightarrow> Group" where
  "exGroup n xs \<equiv> \<lparr>Name = n, MinSize = 0, MaxSize = 2, Items = xs\<rparr>"

abbreviation exRules :: "Rule list" where
  "exRules \<equiv> [\<lparr>TagName = ''t'', Type = RuleTypeSameness, Weight = 1\<rparr>]"

abbreviation exState0 :: State where
  "exState0 \<equiv> \<lparr>Groups = [exGroup ''g1'' [exItem ''a''], exGroup ''g2'' [exItem ''b'']],
                ItemsNotInGroups = [], Score = Finite 2\<rparr>"

abbreviation exState1 :: State where
  "exState1 \<equiv> \<lparr>Groups = [exGroup ''g1'' [], exGroup ''g2'' [exItem ''b'', exItem ''a'']],
                ItemsNotInGroups = [], Score = Finite 4\<rparr>"

text \<open>An item without tags.\<close>

abbreviation bareItem :: "string \<Rightarrow> Item" where
  "bareItem n \<equiv> \<lparr>ID = n, Tags = [], nearnessTags = []\<rparr>"


text \<open>
  No running total of the \<open>MaxSize\<close>s leaves the range of a 64-bit \<open>int\<close>.
\<close>

definition slotsFit :: "Group list \<Rightarrow> bool" where
  "slotsFit gs =
     list_all (\<lambda>k. - (2 ^ 63) \<le> sum_list (map MaxSize (take k gs))
                   \<and> sum_list (map MaxSize (take k gs)) < 2 ^ 63) [0 ..< Suc (length gs)]"

text \<open>A group without a limit that matters: \<open>MaxSize\<close> is \<open>math.MaxInt64\<close>.\<close>

abbreviation openGroup :: "string \<Rightarrow> Group" where
  "openGroup n \<equiv> \<lparr>Name = n, MinSize = 0, MaxSize = 9223372036854775807, Items = []\<rparr>"

text \<open>
  An item at the place \<open>1,1\<close>, before and after \<open>populateNearnessTagPoints\<close>, the rule
  that keeps places close, and two groups, the first of which needs two items.
\<close>

abbreviation placeItem :: "string \<Rightarrow> Item" where
  "placeItem n \<equiv> \<lparr>ID = n, Tags = [(''loc'', ''1,1'')], nearnessTags = []\<rparr>"

abbreviation placedItem :: "string \<Rightarrow> Item" where
  "placedItem n \<equiv> \<lparr>ID = n, Tags = [(''loc'', ''1,1'')],
                    nearnessTags = [(''loc'', Point (Finite 1) (Finite 1))]\<rparr>"

abbreviation placeRules :: "Rule list" where
  "placeRules \<equiv> [\<lparr>TagName = ''loc'', Type = RuleTypeNearness, Weight = 1\<rparr>]"

abbreviation pairGroup :: "string \<Rightarrow> Item list \<Rightarrow> Group" where
  "pairGroup n xs \<equiv> \<lparr>Name = n, MinSize = 2, MaxSize = 3, Items = xs\<rparr>"

abbreviation anyGroup :: "string \<Rightarrow> Item list \<Rightarrow> Group" where
  "anyGroup n xs \<equiv> \<lparr>Name = n, MinSize = 0, MaxSize = 3, Items = xs\<rparr>"





section \<open>Properties of the neighbour search\<close>

lemma placed_simps [simp]:
  "placed [] = {#}" "placed (g # G) = mset (Items g) + placed G"
  "placed (G @ G') = placed G + placed G'"
  by (simp_all add: placed_def)

lemma placed_concat: "placed G = mset (concat (map Items G))"
  by (induction G) simp_all

lemma placed_update:
  "j < length G \<Longrightarrow> placed (G[j := g]) + mset (Items (G ! j)) = placed G + mset (Items g)"
proof (induction G arbitrary: j)
  case Nil
  then show ?case by simp
next
  case (Cons a G)
  then show ?case
    by (cases j) (simp_all add: ac_simps)
qed

lemma scoreRules_Score [simp]:
  "scoreRules parseFloat its (st\<lparr>Score := x\<rparr>) sc rules = scoreRules parseFloat its st sc rules"
  by (induction rules arbitrary: sc) (simp_all split: RuleType.splits)

lemma potentialRules_Score [simp]:
  "potentialRules parseFloat its (st\<lparr>Score := x\<rparr>) sc rules = potentialRules parseFloat its st sc rules"
  by (induction rules arbitrary: sc) (simp_all split: RuleType.splits)

lemma CalculateScore_Score [simp]:
  "CalculateScore parseFloat its rules (st\<lparr>Score := x\<rparr>) = CalculateScore parseFloat its rules st"
  by (simp add: CalculateScore_def CalculateMaxPotentialScore_def CalculateCurrentScore_def IsTerminal_def
      split: sum.splits)

lemma scoreRules_cong:
  "Groups a = Groups b \<Longrightarrow> scoreRules parseFloat its a sc rules = scoreRules parseFloat its b sc rules"
  by (induction rules arbitrary: sc) (simp_all split: RuleType.splits)

lemma potentialRules_cong:
  "Groups a = Groups b \<Longrightarrow> ItemsNotInGroups a = ItemsNotInGroups b
   \<Longrightarrow> potentialRules parseFloat its a sc rules = potentialRules parseFloat its b sc rules"
  by (induction rules arbitrary: sc) (simp_all split: RuleType.splits)

lemma CalculateScore_cong:
  "Groups a = Groups b \<Longrightarrow> ItemsNotInGroups a = ItemsNotInGroups b
   \<Longrightarrow> CalculateScore parseFloat its rules a = CalculateScore parseFloat its rules b"
  by (simp add: CalculateScore_def CalculateMaxPotentialScore_def CalculateCurrentScore_def
      IsTerminal_def scoreRules_cong[of a b] potentialRules_cong[of a b] split: sum.splits)

lemma swapItems_sel [simp]:
  "Groups (swapItems gIndex1 i gIndex2 i2 st) = swapped gIndex1 i gIndex2 i2 (Groups st)"
  "ItemsNotInGroups (swapItems gIndex1 i gIndex2 i2 st) = ItemsNotInGroups st"
  "Score (swapItems gIndex1 i gIndex2 i2 st) = Score st"
  by (simp_all add: swapItems_def swapped_def Let_def)

lemma moveItem_sel [simp]:
  "Groups (moveItem gIndex1 i gIndex2 st) = moved gIndex1 i gIndex2 (Groups st)"
  "ItemsNotInGroups (moveItem gIndex1 i gIndex2 st) = ItemsNotInGroups st"
  "Score (moveItem gIndex1 i gIndex2 st) = Score st"
  by (simp_all add: moveItem_def moved_def Let_def)

lemma State_Copy_sel [simp]:
  "Groups (State_Copy st) = Groups st"
  "ItemsNotInGroups (State_Copy st) = ItemsNotInGroups st"
  "Score (State_Copy st) = Finite 0"
  by (simp_all add: State_Copy_def)

lemma length_swapped [simp]: "length (swapped gIndex1 i gIndex2 i2 G) = length G"
  by (simp add: swapped_def)

lemma length_moved [simp]: "length (moved gIndex1 i gIndex2 G) = length G"
  by (simp add: moved_def)

lemma swapped_swapped:
  assumes "gIndex1 < length G" "gIndex2 < length G" "gIndex1 \<noteq> gIndex2"
    and "i < length (Items (G ! gIndex1))" "i2 < length (Items (G ! gIndex2))"
  shows "swapped gIndex1 i gIndex2 i2 (swapped gIndex1 i gIndex2 i2 G) = G"
  using assms
  by (intro nth_equalityI) (auto simp: swapped_def nth_list_update list_update_same_conv)

lemma swapItems_swapItems:
  assumes "gIndex1 < length (Groups st)" "gIndex2 < length (Groups st)" "gIndex1 \<noteq> gIndex2"
    and "i < length (Items (Groups st ! gIndex1))" "i2 < length (Items (Groups st ! gIndex2))"
  shows "swapItems gIndex1 i gIndex2 i2 (swapItems gIndex1 i gIndex2 i2 st) = st"
proof -
  have "Groups (swapItems gIndex1 i gIndex2 i2 (swapItems gIndex1 i gIndex2 i2 st)) = Groups st"
    using assms by (simp add: swapped_swapped)
  then show ?thesis
    by (simp add: swapItems_def Let_def)
qed

lemma length_Items_swapped [simp]:
  "length (Items (swapped gIndex1 i gIndex2 i2 G ! k)) = length (Items (G ! k))"
proof -
  let ?A = "(G ! gIndex1)\<lparr>Items := (Items (G ! gIndex1))[i := Items (G ! gIndex2) ! i2]\<rparr>"
  let ?B = "(G ! gIndex2)\<lparr>Items := (Items (G ! gIndex2))[i2 := Items (G ! gIndex1) ! i]\<rparr>"
  have "length (Items ?B) = length (Items (G[gIndex1 := ?A] ! gIndex2))"
    by (simp add: length_Items_update)
  then have "length (Items (G[gIndex1 := ?A, gIndex2 := ?B] ! k))
               = length (Items (G[gIndex1 := ?A] ! k))"
    by (rule length_Items_update)
  also have "\<dots> = length (Items (G ! k))"
    by (simp add: length_Items_update)
  finally show ?thesis
    by (simp add: swapped_def)
qed

lemma shape_swapped [simp]:
  "map (\<lambda>g. length (Items g)) (swapped gIndex1 i gIndex2 i2 G) = map (\<lambda>g. length (Items g)) G"
  by (intro nth_equalityI) simp_all

lemma mset_exchange:
  fixes p0 :: "'a multiset"
  assumes "p1 + a = p0 + a'" "p2 + b = p1 + b'" "a' + x = a + y" "b' + y = b + x"
  shows "p2 = p0"
proof (rule multiset_eqI)
  fix z
  from assms have "count (p1 + a) z = count (p0 + a') z" "count (p2 + b) z = count (p1 + b') z"
    "count (a' + x) z = count (a + y) z" "count (b' + y) z = count (b + x) z"
    by simp_all
  then show "count p2 z = count p0 z"
    by simp
qed

lemma placed_swapped:
  assumes "gIndex1 < length G" "gIndex2 < length G" "gIndex1 \<noteq> gIndex2"
    and "i < length (Items (G ! gIndex1))" "i2 < length (Items (G ! gIndex2))"
  shows "placed (swapped gIndex1 i gIndex2 i2 G) = placed G"
proof -
  let ?a = "Items (G ! gIndex1)" and ?b = "Items (G ! gIndex2)"
  let ?A = "(G ! gIndex1)\<lparr>Items := ?a[i := ?b ! i2]\<rparr>"
  let ?B = "(G ! gIndex2)\<lparr>Items := ?b[i2 := ?a ! i]\<rparr>"
  have 1: "placed (G[gIndex1 := ?A]) + mset ?a = placed G + mset (?a[i := ?b ! i2])"
    using placed_update[OF assms(1), of ?A] by simp
  have 2: "placed (G[gIndex1 := ?A, gIndex2 := ?B]) + mset ?b
             = placed (G[gIndex1 := ?A]) + mset (?b[i2 := ?a ! i])"
    using placed_update[of gIndex2 "G[gIndex1 := ?A]" ?B] assms(2,3) by simp
  have a: "mset (?a[i := ?b ! i2]) + {#?a ! i#} = mset ?a + {#?b ! i2#}"
    using assms(4) by (simp add: mset_update)
  have b: "mset (?b[i2 := ?a ! i]) + {#?b ! i2#} = mset ?b + {#?a ! i#}"
    using assms(5) by (simp add: mset_update)
  from 1 2 a b have "placed (G[gIndex1 := ?A, gIndex2 := ?B]) = placed G"
    by (rule mset_exchange)
  then show ?thesis
    by (simp add: swapped_def)
qed

lemma mset_delete_by_last:
  assumes "i < length xs"
  shows "mset (butlast (xs[i := last xs])) + {#xs ! i#} = mset xs"
proof -
  from assms have "xs \<noteq> []" by auto
  then obtain ys y where xs: "xs = ys @ [y]"
    by (metis append_butlast_last_id)
  show ?thesis
  proof (cases "i < length ys")
    case True
    then have "xs[i := last xs] = ys[i := y] @ [y]"
      using xs by (simp add: list_update_append)
    then have "mset (butlast (xs[i := last xs])) = mset (ys[i := y])"
      by simp
    moreover have "mset (ys[i := y]) + {#ys ! i#} = mset ys + {#y#}"
      using True by (simp add: mset_update)
    ultimately show ?thesis
      using xs True by (simp add: nth_append)
  next
    case False
    with assms xs have "i = length ys" by simp
    then show ?thesis
      using xs by simp
  qed
qed

lemma placed_moved:
  assumes "gIndex1 < length G" "gIndex2 < length G" "gIndex1 \<noteq> gIndex2"
    and "i < length (Items (G ! gIndex1))"
  shows "placed (moved gIndex1 i gIndex2 G) = placed G"
proof -
  let ?a = "Items (G ! gIndex1)" and ?b = "Items (G ! gIndex2)"
  let ?A = "(G ! gIndex1)\<lparr>Items := butlast (?a[i := last ?a])\<rparr>"
  let ?B = "(G ! gIndex2)\<lparr>Items := ?b @ [?a ! i]\<rparr>"
  have 1: "placed (G[gIndex1 := ?A]) + mset ?a = placed G + mset (butlast (?a[i := last ?a]))"
    using placed_update[OF assms(1), of ?A] by simp
  have 2: "placed (G[gIndex1 := ?A, gIndex2 := ?B]) + mset ?b
             = placed (G[gIndex1 := ?A]) + mset (?b @ [?a ! i])"
    using placed_update[of gIndex2 "G[gIndex1 := ?A]" ?B] assms(2,3) by simp
  have a: "mset (butlast (?a[i := last ?a])) + {#?a ! i#} = mset ?a"
    using assms(4) by (rule mset_delete_by_last)
  have b: "mset (?b @ [?a ! i]) + {#} = mset ?b + {#?a ! i#}"
    by simp
  have a': "mset (butlast (?a[i := last ?a])) + {#?a ! i#} = mset ?a + {#}"
    using a by simp
  from 1 2 a' b have "placed (G[gIndex1 := ?A, gIndex2 := ?B]) = placed G"
    by (rule mset_exchange)
  then show ?thesis
    by (simp add: moved_def)
qed

lemma goodOption_scored:
  assumes "CalculateScore parseFloat its rules m = Inr sc"
    and "ItemsNotInGroups m = ItemsNotInGroups src" and "neighbourOf (Groups src) (Groups m)"
  shows "goodOption parseFloat its rules src (m\<lparr>Score := sc\<rparr>)"
  using assms by (simp add: goodOption_def)

lemma swapLoop_char:
  assumes "swapLoop parseFloat its rules src gIndex1 i gIndex2 own i2s best s = Inr (best', s')"
    and "gIndex1 < length (Groups src)" "gIndex2 < length (Groups src)" "gIndex1 \<noteq> gIndex2"
    and "i < length (Items (Groups src ! gIndex1))"
    and "\<forall>i2\<in>set i2s. i2 < length (Items (Groups src ! gIndex2))"
    and "Groups s = Groups src" "ItemsNotInGroups s = ItemsNotInGroups src"
    and "goodOption parseFloat its rules src best"
    and "own = OwnerBestOption \<longrightarrow>
           map (\<lambda>g. length (Items g)) (Groups best) = map (\<lambda>g. length (Items g)) (Groups src)"
  shows "goodOption parseFloat its rules src best' \<and> Groups s' = Groups src
         \<and> ItemsNotInGroups s' = ItemsNotInGroups src"
  using assms
proof (induction i2s arbitrary: own best s)
  case Nil
  then show ?case by simp
next
  case (Cons i2 i2s)
  note valid = Cons.prems(2-5)
  from Cons.prems(6) have i2: "i2 < length (Items (Groups src ! gIndex2))"
    and rest: "\<forall>i2\<in>set i2s. i2 < length (Items (Groups src ! gIndex2))"
    by simp_all
  let ?s1 = "if own = OwnerS then swapItems gIndex1 i gIndex2 i2 s else s"
  let ?best1 = "if own = OwnerBestOption then swapItems gIndex1 i gIndex2 i2 best else best"
  from Cons.prems(1) obtain sc where sc: "CalculateScore parseFloat its rules ?s1 = Inr sc"
    by (auto simp: Let_def split: sum.splits)
  have nb: "neighbourOf (Groups src) (Groups ?s1)"
    using valid i2 Cons.prems(7) unfolding neighbourOf_def by (cases "own = OwnerS") auto
  have its1: "ItemsNotInGroups ?s1 = ItemsNotInGroups src"
    using Cons.prems(8) by simp
  show ?case
  proof (cases "f64_gt sc (Score ?best1)")
    case True
    let ?own' = "if own = OwnerS then OwnerBestOption else OwnerGarbage"
    from Cons.prems(1) sc True
    have run: "swapLoop parseFloat its rules src gIndex1 i gIndex2 ?own' i2s
                 (?s1\<lparr>Score := sc\<rparr>) (State_Copy src) = Inr (best', s')"
      by (simp add: Let_def)
    have good: "goodOption parseFloat its rules src (?s1\<lparr>Score := sc\<rparr>)"
      using sc its1 nb by (rule goodOption_scored)
    have shape: "?own' = OwnerBestOption \<longrightarrow>
           map (\<lambda>g. length (Items g)) (Groups (?s1\<lparr>Score := sc\<rparr>))
             = map (\<lambda>g. length (Items g)) (Groups src)"
      using Cons.prems(7) by auto
    show ?thesis
      by (rule Cons.IH[OF run valid rest _ _ good shape]) simp_all
  next
    case False
    let ?best2 = "if own = OwnerBestOption then swapItems gIndex1 i gIndex2 i2 ?best1 else ?best1"
    let ?s2 = "if own = OwnerS then swapItems gIndex1 i gIndex2 i2 (?s1\<lparr>Score := sc\<rparr>)
               else ?s1\<lparr>Score := sc\<rparr>"
    from Cons.prems(1) sc False
    have run: "swapLoop parseFloat its rules src gIndex1 i gIndex2 own i2s ?best2 ?s2 = Inr (best', s')"
      by (simp add: Let_def)
    have best2: "?best2 = best"
    proof (cases "own = OwnerBestOption")
      case True
      with Cons.prems(10)
      have sh: "map (\<lambda>g. length (Items g)) (Groups best) = map (\<lambda>g. length (Items g)) (Groups src)"
        by simp
      then have len: "length (Groups best) = length (Groups src)"
        by (metis length_map)
      have row: "length (Items (Groups best ! k)) = length (Items (Groups src ! k))"
        if "k < length (Groups src)" for k
        using sh that len by (metis (mono_tags, lifting) nth_map)
      have "swapItems gIndex1 i gIndex2 i2 (swapItems gIndex1 i gIndex2 i2 best) = best"
        using valid i2 len row by (intro swapItems_swapItems) simp_all
      with True show ?thesis by simp
    next
      case False
      then show ?thesis by simp
    qed
    have s2G: "Groups ?s2 = Groups src"
      using valid i2 Cons.prems(7) by (simp add: swapped_swapped)
    have s2I: "ItemsNotInGroups ?s2 = ItemsNotInGroups src"
      using Cons.prems(8) by simp
    from run best2
    have run': "swapLoop parseFloat its rules src gIndex1 i gIndex2 own i2s best ?s2 = Inr (best', s')"
      by simp
    show ?thesis
      by (rule Cons.IH[OF run' valid rest s2G s2I Cons.prems(9) Cons.prems(10)])
  qed
qed

lemma tryGroup_char:
  assumes "tryGroup parseFloat its rules src gIndex1 i gIndex2 best s = Inr (best', s')"
    and "gIndex1 < length (Groups src)" "gIndex2 < length (Groups src)"
    and "i < length (Items (Groups src ! gIndex1))"
    and "Groups s = Groups src" "ItemsNotInGroups s = ItemsNotInGroups src"
    and "goodOption parseFloat its rules src best"
  shows "goodOption parseFloat its rules src best' \<and> Groups s' = Groups src
         \<and> ItemsNotInGroups s' = ItemsNotInGroups src"
proof (cases "gIndex1 = gIndex2")
  case True
  with assms show ?thesis
    by (simp add: tryGroup_def)
next
  case ne: False
  show ?thesis
  proof (cases "int (length (Items (Groups src ! gIndex2))) < MaxSize (Groups src ! gIndex2)")
    case True
    let ?s1 = "moveItem gIndex1 i gIndex2 s"
    from assms(1) ne True assms(5)
    obtain sc where sc: "CalculateScore parseFloat its rules ?s1 = Inr sc"
      by (auto simp: tryGroup_def Let_def split: sum.splits)
    have nb: "neighbourOf (Groups src) (Groups ?s1)"
      using assms(2-5) ne True unfolding neighbourOf_def by auto
    have "goodOption parseFloat its rules src (?s1\<lparr>Score := sc\<rparr>)"
      using sc _ nb by (rule goodOption_scored) (simp add: assms(6))
    with assms(1,5,6,7) ne True sc show ?thesis
      by (auto simp: tryGroup_def Let_def split: if_splits)
  next
    case False
    with assms(1) ne assms(5)
    have "swapLoop parseFloat its rules src gIndex1 i gIndex2 OwnerS
            [0..<length (Items (Groups src ! gIndex2))] best s = Inr (best', s')"
      by (simp add: tryGroup_def Let_def)
    then show ?thesis
      using assms(2,3) ne assms(4) _ assms(5,6,7)
      by (rule swapLoop_char) simp_all
  qed
qed

lemma g2Loop_char:
  assumes "g2Loop parseFloat its rules src gIndex1 i g2s best s = Inr (best', s')"
    and "gIndex1 < length (Groups src)" "\<forall>gIndex2\<in>set g2s. gIndex2 < length (Groups src)"
    and "i < length (Items (Groups src ! gIndex1))"
    and "Groups s = Groups src" "ItemsNotInGroups s = ItemsNotInGroups src"
    and "goodOption parseFloat its rules src best"
  shows "goodOption parseFloat its rules src best' \<and> Groups s' = Groups src
         \<and> ItemsNotInGroups s' = ItemsNotInGroups src"
  using assms
proof (induction g2s arbitrary: best s)
  case Nil
  then show ?case by simp
next
  case (Cons gIndex2 g2s)
  from Cons.prems(1) obtain b1 s1 where
    t: "tryGroup parseFloat its rules src gIndex1 i gIndex2 best s = Inr (b1, s1)"
    and r: "g2Loop parseFloat its rules src gIndex1 i g2s b1 s1 = Inr (best', s')"
    by (auto split: sum.splits)
  from Cons.prems(3) have g2: "gIndex2 < length (Groups src)"
    and rest: "\<forall>gIndex2\<in>set g2s. gIndex2 < length (Groups src)"
    by simp_all
  from tryGroup_char[OF t Cons.prems(2) g2 Cons.prems(4,5,6,7)]
  have "goodOption parseFloat its rules src b1" "Groups s1 = Groups src"
    "ItemsNotInGroups s1 = ItemsNotInGroups src"
    by simp_all
  with r Cons.prems(2) rest Cons.prems(4) show ?case
    by (intro Cons.IH)
qed

lemma iLoop_char:
  assumes "iLoop parseFloat its rules src gIndex1 i best s = Inr (best', s')"
    and "gIndex1 < length (Groups src)"
    and "Groups s = Groups src" "ItemsNotInGroups s = ItemsNotInGroups src"
    and "goodOption parseFloat its rules src best"
  shows "goodOption parseFloat its rules src best' \<and> Groups s' = Groups src
         \<and> ItemsNotInGroups s' = ItemsNotInGroups src"
  using assms
proof (induction parseFloat its rules src gIndex1 i best s rule: iLoop.induct)
  case (1 parseFloat its rules src gIndex1 i best s)
  show ?case
  proof (cases "i < length (Items (Groups s ! gIndex1))")
    case False
    with "1.prems" show ?thesis
      by (simp add: iLoop.simps)
  next
    case True
    with "1.prems"(1) obtain b1 s1 where
      g: "g2Loop parseFloat its rules src gIndex1 i [0..<length (Groups s)] best s = Inr (b1, s1)"
      and r: "iLoop parseFloat its rules src gIndex1 (i + 1) b1 s1 = Inr (best', s')"
      by (subst (asm) iLoop.simps) (auto split: sum.splits)
    from True "1.prems"(3) have i: "i < length (Items (Groups src ! gIndex1))"
      by simp
    have "\<forall>gIndex2\<in>set [0..<length (Groups s)]. gIndex2 < length (Groups src)"
      using "1.prems"(3) by simp
    from g2Loop_char[OF g "1.prems"(2) this i "1.prems"(3,4,5)]
    have c: "goodOption parseFloat its rules src b1" "Groups s1 = Groups src"
      "ItemsNotInGroups s1 = ItemsNotInGroups src"
      by simp_all
    show ?thesis
      by (rule "1.IH"[OF True g refl r "1.prems"(2) c(2,3,1)])
  qed
qed

lemma g1Loop_char:
  assumes "g1Loop parseFloat its rules src g1s best s = Inr (best', s')"
    and "\<forall>gIndex1\<in>set g1s. gIndex1 < length (Groups src)"
    and "Groups s = Groups src" "ItemsNotInGroups s = ItemsNotInGroups src"
    and "goodOption parseFloat its rules src best"
  shows "goodOption parseFloat its rules src best' \<and> Groups s' = Groups src
         \<and> ItemsNotInGroups s' = ItemsNotInGroups src"
  using assms
proof (induction g1s arbitrary: best s)
  case Nil
  then show ?case by simp
next
  case (Cons gIndex1 g1s)
  from Cons.prems(1) obtain b1 s1 where
    t: "iLoop parseFloat its rules src gIndex1 0 best s = Inr (b1, s1)"
    and r: "g1Loop parseFloat its rules src g1s b1 s1 = Inr (best', s')"
    by (auto split: sum.splits)
  from Cons.prems(2) have g1: "gIndex1 < length (Groups src)"
    and rest: "\<forall>gIndex1\<in>set g1s. gIndex1 < length (Groups src)"
    by simp_all
  from iLoop_char[OF t g1 Cons.prems(3,4,5)]
  have "goodOption parseFloat its rules src b1" "Groups s1 = Groups src"
    "ItemsNotInGroups s1 = ItemsNotInGroups src"
    by simp_all
  with r rest show ?case
    by (intro Cons.IH)
qed

lemma getBestNextStateFrom_char:
  assumes "getBestNextStateFrom parseFloat its rules src = Inr b"
  shows "goodOption parseFloat its rules src b"
proof -
  from assms obtain s' where
    "g1Loop parseFloat its rules src [0..<length (Groups src)] src (State_Copy src) = Inr (b, s')"
    by (auto simp: getBestNextStateFrom_def Let_def split: sum.splits)
  then have "goodOption parseFloat its rules src b \<and> Groups s' = Groups src
         \<and> ItemsNotInGroups s' = ItemsNotInGroups src"
    by (rule g1Loop_char) (simp_all add: goodOption_def)
  then show ?thesis ..
qed

section \<open>Properties of the digest\<close>










section \<open>Invariants of the main loop\<close>

lemma getRandomState_scatter:
  assumes "getRandomState parseFloat its rules gs cp = Inr (Some s, perm')"
  shows "scatter parseFloat its rules gs perm' = Inr s"
  using assms
  by (auto simp: getRandomState_def Let_def split: option.splits sum.splits if_splits)

lemma runLoop_invariant:
  assumes "runLoop parseFloat ctxDone its rules gs k nxt best tried perm = Inr r"
    and "P nxt" "Q best"
    and sc: "\<And>perm s. scatter parseFloat its rules gs perm = Inr s \<Longrightarrow> P s"
    and st: "\<And>s b. P s \<Longrightarrow> getBestNextStateFrom parseFloat its rules s = Inr b \<Longrightarrow> P b"
    and up: "\<And>n b. P n \<Longrightarrow> Q b \<Longrightarrow> f64_gt (Score n) (Score b) \<Longrightarrow> Q n"
  shows "Q r"
  using assms
proof (induction parseFloat ctxDone its rules gs k nxt best tried perm rule: runLoop.induct)
  case (1 parseFloat ctxDone its rules gs k nxt best tried perm)
  note sc = "1.prems"(4) and st = "1.prems"(5) and up = "1.prems"(6)
  note run = "1.prems"(1)[unfolded runLoop.simps[of parseFloat ctxDone its rules gs k nxt best tried perm]]
  show ?case
  proof (cases "ctxDone k")
    case True
    with run "1.prems"(3) show ?thesis by simp
  next
    case nq: False
    show ?thesis
    proof (cases "State_digest nxt \<in> tried")
      case True
      show ?thesis
      proof (cases "getRandomState parseFloat its rules gs (Some perm)")
        case (Inl e)
        with run nq True show ?thesis by (simp add: Let_def)
      next
        case (Inr res)
        obtain so perm' where res: "res = (so, perm')" by (cases res)
        show ?thesis
        proof (cases so)
          case None
          with run nq True Inr res "1.prems"(3) show ?thesis by (simp add: Let_def)
        next
          case (Some n')
          with run nq True Inr res
          have r: "runLoop parseFloat ctxDone its rules gs (k + 1) n' best tried perm' = Inr r"
            by (simp add: Let_def)
          from Inr res Some
          have "getRandomState parseFloat its rules gs (Some perm) = Inr (Some n', perm')"
            by simp
          then have "P n'"
            by (rule sc[OF getRandomState_scatter])
          from "1.IH"(1)[OF nq refl True Inr res[symmetric] Some r this "1.prems"(3) sc st up]
          show ?thesis .
        qed
      qed
    next
      case nt: False
      show ?thesis
      proof (cases "getBestNextStateFrom parseFloat its rules nxt")
        case (Inl e)
        with run nq nt show ?thesis by (simp add: Let_def)
      next
        case bo: (Inr bestOption)
        have Pbo: "P bestOption"
          using "1.prems"(2) bo by (rule st)
        show ?thesis
        proof (cases "f64_gt (Score bestOption) (Score nxt)")
          case True
          with run nq nt bo
          have r: "runLoop parseFloat ctxDone its rules gs (k + 1) bestOption best
                     (insert (State_digest nxt) tried) perm = Inr r"
            by (simp add: Let_def)
          from "1.IH"(2)[OF nq refl nt bo True r Pbo "1.prems"(3) sc st up]
          show ?thesis .
        next
          case ni: False
          let ?best' = "if f64_gt (Score nxt) (Score best) then nxt else best"
          have Qb: "Q ?best'"
            using "1.prems"(2,3) by (auto intro: up)
          show ?thesis
          proof (cases "getRandomState parseFloat its rules gs (Some perm)")
            case (Inl e)
            with run nq nt bo ni show ?thesis by (simp add: Let_def)
          next
            case (Inr res)
            obtain so perm' where res: "res = (so, perm')" by (cases res)
            show ?thesis
            proof (cases so)
              case None
              with run nq nt bo ni Inr res have "r = ?best'"
                by (simp add: Let_def)
              with Qb show ?thesis by simp
            next
              case (Some n')
              with run nq nt bo ni Inr res
              have r: "runLoop parseFloat ctxDone its rules gs (k + 1) n' ?best'
                         (insert (State_digest nxt) tried) perm' = Inr r"
                by (simp add: Let_def)
              from Inr res Some
              have "getRandomState parseFloat its rules gs (Some perm) = Inr (Some n', perm')"
                by simp
              then have "P n'"
                by (rule sc[OF getRandomState_scatter])
              from "1.IH"(3)[OF nq refl nt bo ni refl Inr res[symmetric] Some r this Qb sc st up]
              show ?thesis .
            qed
          qed
        qed
      qed
    qed
  qed
qed

lemma run_invariant:
  assumes "run parseFloat ctxDone its rules gs = Inr res"
    and sc: "\<And>perm s. scatter parseFloat (populateNearnessTagPoints parseFloat rules its) rules gs perm = Inr s \<Longrightarrow> P s"
    and st: "\<And>s b. P s \<Longrightarrow> getBestNextStateFrom parseFloat (populateNearnessTagPoints parseFloat rules its) rules s = Inr b \<Longrightarrow> P b"
  shows "\<exists>r. P r \<and> res = clearGroups (Groups r)"
proof -
  let ?its = "populateNearnessTagPoints parseFloat rules its"
  from assms(1) obtain nxt perm r where
    g: "getRandomState parseFloat ?its rules gs None = Inr (Some nxt, perm)"
    and l: "runLoop parseFloat ctxDone ?its rules gs 0 nxt nxt {} perm = Inr r"
    and res: "res = clearGroups (Groups r)"
    by (auto simp: run_def Let_def split: option.splits sum.splits)
  have Pn: "P nxt"
    by (rule sc[OF getRandomState_scatter[OF g]])
  have "P r"
    by (rule runLoop_invariant[where P = P and Q = P, OF l Pn Pn]) (auto intro: sc st)
  with res show ?thesis by blast
qed

section \<open>Properties of the scatter\<close>

lemma applyPermutation_mset:
  "applyPermutation i perm xs = Inr ys \<Longrightarrow> mset ys = mset xs"
proof (induction perm arbitrary: i xs)
  case Nil
  then show ?case by simp
next
  case (Cons v perm)
  from Cons.prems have lt: "i + v < length xs"
    and r: "applyPermutation (i + 1) perm (xs[i := xs ! (i + v), i + v := xs ! i]) = Inr ys"
    by (auto split: if_splits)
  from lt have "mset (xs[i := xs ! (i + v), i + v := xs ! i]) = mset xs"
    by (intro mset_swap) simp_all
  with Cons.IH[OF r] show ?case by simp
qed

lemma fillToMinSize_props:
  assumes "fillToMinSize grp rest = (grp', rest')"
  shows "mset (Items grp') + mset rest' = mset (Items grp) + mset rest"
    and "Name grp' = Name grp" "MinSize grp' = MinSize grp" "MaxSize grp' = MaxSize grp"
    and "int (length (Items grp')) \<le> max (int (length (Items grp))) (MinSize grp)"
    and "length (Items grp) \<le> length (Items grp')"
  using assms
  by (induction grp rest rule: fillToMinSize.induct; force split: if_splits)+

lemma fillMinSizes_props:
  assumes "fillMinSizes gs rest = (gs', rest')"
  shows "placed gs' + mset rest' = placed gs + mset rest"
    and "templates gs' = templates gs"
    and "list_all (\<lambda>grp. Items grp = []) gs
         \<Longrightarrow> list_all (\<lambda>grp. int (length (Items grp)) \<le> max 0 (MinSize grp)) gs'"
  using assms
proof (induction gs arbitrary: rest gs' rest')
  case Nil
  { case 1 then show ?case by simp }
  { case 2 then show ?case by simp }
  { case 3 then show ?case by simp }
next
  case (Cons grp gs)
  { case 1
    then obtain g1 r1 gs1 where a: "fillToMinSize grp rest = (g1, r1)"
      and b: "fillMinSizes gs r1 = (gs1, rest')" and c: "gs' = g1 # gs1"
      by (auto split: prod.splits)
    from fillToMinSize_props(1)[OF a] Cons.IH(1)[OF b] c show ?case
      by (simp add: ac_simps) (metis add.assoc add.commute) }
  { case 2
    then obtain g1 r1 gs1 where a: "fillToMinSize grp rest = (g1, r1)"
      and b: "fillMinSizes gs r1 = (gs1, rest')" and c: "gs' = g1 # gs1"
      by (auto split: prod.splits)
    from fillToMinSize_props(2-4)[OF a] Cons.IH(2)[OF b] c show ?case
      by (simp add: templates_def) }
  { case 3
    then obtain g1 r1 gs1 where a: "fillToMinSize grp rest = (g1, r1)"
      and b: "fillMinSizes gs r1 = (gs1, rest')" and c: "gs' = g1 # gs1"
      by (auto split: prod.splits)
    from 3 fillToMinSize_props(3,5)[OF a] Cons.IH(3)[OF _ b] c show ?case
      by simp }
qed

lemma roundRobinPass_props:
  assumes "roundRobinPass gs rest = (gs', rest')"
  shows "placed gs' + mset rest' = placed gs + mset rest"
    and "templates gs' = templates gs"
    and "withinMax gs \<Longrightarrow> withinMax gs'"
  using assms
proof (induction gs rest arbitrary: gs' rest' rule: roundRobinPass.induct)
  case (1 rest)
  { case 1 then show ?case by simp }
  { case 2 then show ?case by simp }
  { case 3 then show ?case by simp }
next
  case (2 grp gs)
  { case 1 then show ?case by simp }
  { case 2 then show ?case by simp }
  { case 3 then show ?case by simp }
next
  case (3 grp gs x rest)
  { case 1
    show ?case
    proof (cases "int (length (Items grp)) = MaxSize grp")
      case True
      with 1 obtain gs1 where a: "roundRobinPass gs (x # rest) = (gs1, rest')" and c: "gs' = grp # gs1"
        by (auto split: prod.splits)
      from "3.IH"(1)[OF True a] c show ?thesis by (simp add: ac_simps)
    next
      case False
      with 1 obtain gs1 where a: "roundRobinPass gs rest = (gs1, rest')"
        and c: "gs' = grp\<lparr>Items := Items grp @ [x]\<rparr> # gs1"
        by (auto split: prod.splits)
      from "3.IH"(4)[OF False a] c show ?thesis by (simp add: ac_simps)
    qed }
  { case 2
    show ?case
    proof (cases "int (length (Items grp)) = MaxSize grp")
      case True
      with 2 obtain gs1 where a: "roundRobinPass gs (x # rest) = (gs1, rest')" and c: "gs' = grp # gs1"
        by (auto split: prod.splits)
      from "3.IH"(2)[OF True a] c show ?thesis by (simp add: templates_def)
    next
      case False
      with 2 obtain gs1 where a: "roundRobinPass gs rest = (gs1, rest')"
        and c: "gs' = grp\<lparr>Items := Items grp @ [x]\<rparr> # gs1"
        by (auto split: prod.splits)
      from "3.IH"(5)[OF False a] c show ?thesis by (simp add: templates_def)
    qed }
  { case 3
    show ?case
    proof (cases "int (length (Items grp)) = MaxSize grp")
      case True
      with 3 obtain gs1 where a: "roundRobinPass gs (x # rest) = (gs1, rest')" and c: "gs' = grp # gs1"
        by (auto split: prod.splits)
      from 3(1) "3.IH"(3)[OF True _ a] c show ?thesis by (simp add: withinMax_def)
    next
      case False
      with 3 obtain gs1 where a: "roundRobinPass gs rest = (gs1, rest')"
        and c: "gs' = grp\<lparr>Items := Items grp @ [x]\<rparr> # gs1"
        by (auto split: prod.splits)
      from 3(1) False "3.IH"(6)[OF False _ a] c show ?thesis by (simp add: withinMax_def)
    qed }
qed

lemma roundRobin_props:
  assumes "roundRobin gs rest = Inr gs'"
  shows "placed gs' = placed gs + mset rest"
    and "templates gs' = templates gs"
    and "withinMax gs \<Longrightarrow> withinMax gs'"
  using assms
proof (induction gs rest rule: roundRobin.induct)
  case (1 gs rest)
  { case 1
    show ?case
    proof (cases "rest = []")
      case True
      with 1 show ?thesis by (simp add: roundRobin.simps)
    next
      case False
      obtain gs1 r1 where p: "roundRobinPass gs rest = (gs1, r1)"
        by (cases "roundRobinPass gs rest")
      with 1 False have ne: "length r1 \<noteq> length rest" and r: "roundRobin gs1 r1 = Inr gs'"
        by (auto simp: roundRobin.simps[of gs rest] split: if_splits)
      from "1.IH"(1)[OF False p[symmetric] ne r] roundRobinPass_props(1)[OF p]
      show ?thesis by simp
    qed }
  { case 2
    show ?case
    proof (cases "rest = []")
      case True
      with 2 show ?thesis by (simp add: roundRobin.simps)
    next
      case False
      obtain gs1 r1 where p: "roundRobinPass gs rest = (gs1, r1)"
        by (cases "roundRobinPass gs rest")
      with 2 False have ne: "length r1 \<noteq> length rest" and r: "roundRobin gs1 r1 = Inr gs'"
        by (auto simp: roundRobin.simps[of gs rest] split: if_splits)
      from "1.IH"(2)[OF False p[symmetric] ne r] roundRobinPass_props(2)[OF p]
      show ?thesis by simp
    qed }
  { case 3
    show ?case
    proof (cases "rest = []")
      case True
      with 3 show ?thesis by (simp add: roundRobin.simps)
    next
      case False
      obtain gs1 r1 where p: "roundRobinPass gs rest = (gs1, r1)"
        by (cases "roundRobinPass gs rest")
      with 3 False have ne: "length r1 \<noteq> length rest" and r: "roundRobin gs1 r1 = Inr gs'"
        by (auto simp: roundRobin.simps[of gs rest] split: if_splits)
      from "1.IH"(3)[OF False p[symmetric] ne _ r] roundRobinPass_props(3)[OF p 3(1)]
      show ?thesis by simp
    qed }
qed

lemma saneSizes_templates: "saneSizes G = list_all (\<lambda>(n, mn, mx). 0 \<le> mx \<and> mn \<le> mx) (templates G)"
  by (simp add: saneSizes_def templates_def list_all_iff)

lemma templates_clear [simp]: "templates (map (\<lambda>grp. grp\<lparr>Items := []\<rparr>) gs) = templates gs"
  by (simp add: templates_def)

lemma placed_clear [simp]: "placed (map (\<lambda>grp. grp\<lparr>Items := []\<rparr>) gs) = {#}"
  by (induction gs) simp_all

lemma scatter_props:
  assumes "scatter parseFloat its rules gs perm = Inr s"
  shows "placed (Groups s) = mset its" "ItemsNotInGroups s = []"
    and "CalculateScore parseFloat its rules s = Inr (Score s)"
    and "templates (Groups s) = templates gs"
    and "saneSizes gs \<Longrightarrow> withinMax (Groups s)"
proof -
  let ?empty = "map (\<lambda>grp. grp\<lparr>Items := []\<rparr>) gs"
  from assms obtain nextPerm gs1 rest gs2 sc where
    ap: "applyPermutation 0 perm its = Inr nextPerm"
    and fm: "fillMinSizes ?empty nextPerm = (gs1, rest)"
    and rr: "roundRobin gs1 rest = Inr gs2"
    and cs: "CalculateScore parseFloat its rules \<lparr>Groups = gs2, ItemsNotInGroups = [], Score = Finite 0\<rparr> = Inr sc"
    and s: "s = \<lparr>Groups = gs2, ItemsNotInGroups = [], Score = sc\<rparr>"
    by (auto simp: scatter_def Let_def split: sum.splits prod.splits)
  from fillMinSizes_props(1)[OF fm] roundRobin_props(1)[OF rr] applyPermutation_mset[OF ap] s
  show "placed (Groups s) = mset its"
    by simp
  from s show "ItemsNotInGroups s = []"
    by simp
  have "CalculateScore parseFloat its rules s
          = CalculateScore parseFloat its rules \<lparr>Groups = gs2, ItemsNotInGroups = [], Score = Finite 0\<rparr>"
    by (rule CalculateScore_cong) (simp_all add: s)
  with cs s show "CalculateScore parseFloat its rules s = Inr (Score s)"
    by simp
  from fillMinSizes_props(2)[OF fm] roundRobin_props(2)[OF rr] s
  show t: "templates (Groups s) = templates gs"
    by simp
  show "withinMax (Groups s)" if sane: "saneSizes gs"
  proof -
    have t1: "templates gs1 = templates gs"
      using fillMinSizes_props(2)[OF fm] by simp
    have "list_all (\<lambda>grp. Items grp = []) ?empty"
      by (simp add: list_all_iff)
    from fillMinSizes_props(3)[OF fm this]
    have a: "list_all (\<lambda>grp. int (length (Items grp)) \<le> max 0 (MinSize grp)) gs1" .
    from sane t1 have "saneSizes gs1"
      by (simp add: saneSizes_templates)
    have "int (length (Items grp)) \<le> MaxSize grp" if "grp \<in> set gs1" for grp
    proof -
      from a that have "int (length (Items grp)) \<le> max 0 (MinSize grp)"
        by (simp add: list_all_iff)
      moreover from \<open>saneSizes gs1\<close> that have "0 \<le> MaxSize grp \<and> MinSize grp \<le> MaxSize grp"
        by (simp add: saneSizes_def list_all_iff)
      ultimately show ?thesis by linarith
    qed
    then have "withinMax gs1"
      by (simp add: withinMax_def list_all_iff)
    with roundRobin_props(3)[OF rr] s show ?thesis
      by simp
  qed
qed

lemma templates_update:
  "Name v = Name (G ! j) \<Longrightarrow> MinSize v = MinSize (G ! j) \<Longrightarrow> MaxSize v = MaxSize (G ! j)
   \<Longrightarrow> templates (G[j := v]) = templates G"
  by (cases "j < length G") (simp_all add: templates_def map_update list_update_same_conv list_update_beyond)

lemma nth_update_cases: "k < length G \<Longrightarrow> G[j := v] ! k = (if k = j then v else G ! k)"
  by (cases "k = j") simp_all

lemma templates_swapped [simp]: "templates (swapped gIndex1 i gIndex2 i2 G) = templates G"
  unfolding swapped_def
  by (intro nth_equalityI) (auto simp: templates_def nth_update_cases)

lemma templates_moved [simp]: "templates (moved gIndex1 i gIndex2 G) = templates G"
  unfolding moved_def
  by (intro nth_equalityI) (auto simp: templates_def nth_update_cases)

lemma withinMax_swapped: "withinMax G \<Longrightarrow> withinMax (swapped gIndex1 i gIndex2 i2 G)"
proof -
  assume w: "withinMax G"
  have "int (length (Items (swapped gIndex1 i gIndex2 i2 G ! k))) \<le> MaxSize (swapped gIndex1 i gIndex2 i2 G ! k)"
    if k: "k < length G" for k
  proof -
    have "templates (swapped gIndex1 i gIndex2 i2 G) ! k = templates G ! k"
      by simp
    with k have "MaxSize (swapped gIndex1 i gIndex2 i2 G ! k) = MaxSize (G ! k)"
      by (simp add: templates_def)
    moreover from w k have "int (length (Items (G ! k))) \<le> MaxSize (G ! k)"
      by (simp add: withinMax_def list_all_length)
    ultimately show ?thesis by simp
  qed
  then show ?thesis
    by (simp add: withinMax_def list_all_length)
qed

lemma withinMax_moved:
  assumes "withinMax G" "gIndex1 \<noteq> gIndex2"
    and "int (length (Items (G ! gIndex2))) < MaxSize (G ! gIndex2)"
  shows "withinMax (moved gIndex1 i gIndex2 G)"
proof -
  have "int (length (Items (moved gIndex1 i gIndex2 G ! k))) \<le> MaxSize (moved gIndex1 i gIndex2 G ! k)"
    if k: "k < length G" for k
  proof -
    from assms(1) k have le: "int (length (Items (G ! k))) \<le> MaxSize (G ! k)"
      by (simp add: withinMax_def list_all_length)
    show ?thesis
      using k le assms(2,3) by (auto simp: moved_def nth_update_cases)
  qed
  then show ?thesis
    by (simp add: withinMax_def list_all_length)
qed

lemma neighbourOf_props:
  assumes "neighbourOf G G'"
  shows "placed G' = placed G" "templates G' = templates G" "withinMax G \<Longrightarrow> withinMax G'"
    and "length G' = length G"
  using assms unfolding neighbourOf_def
  by (auto simp: placed_moved placed_swapped withinMax_moved withinMax_swapped)

lemma goodOption_props:
  assumes "goodOption parseFloat its rules src b"
  shows "placed (Groups b) = placed (Groups src)" "templates (Groups b) = templates (Groups src)"
    and "withinMax (Groups src) \<Longrightarrow> withinMax (Groups b)"
    and "ItemsNotInGroups b = ItemsNotInGroups src"
  using assms unfolding goodOption_def
  by (auto dest: neighbourOf_props)

section \<open>The partition invariant\<close>


lemma f64_lt_irrefl [simp]: "\<not> f64_lt a a"
  by (cases a) simp_all



lemma populateItem_clear:
  "(populateItem parseFloat rule item)\<lparr>nearnessTags := []\<rparr> = item\<lparr>nearnessTags := []\<rparr>"
  by (simp add: populateItem_def Let_def split: option.splits)

lemma populate_length [simp]: "length (populateNearnessTagPoints parseFloat rules its) = length its"
  unfolding populateNearnessTagPoints_def
  by (induction rules arbitrary: its) simp_all

lemma clear_populate:
  "clearNearnessTagPoints (populateNearnessTagPoints parseFloat rules its) = clearNearnessTagPoints its"
  unfolding populateNearnessTagPoints_def
proof (induction rules arbitrary: its)
  case Nil
  then show ?case by simp
next
  case (Cons rule rules)
  have "clearNearnessTagPoints (map (populateItem parseFloat rule) its) = clearNearnessTagPoints its"
    by (simp add: clearNearnessTagPoints_def populateItem_clear)
  with Cons show ?case
    by simp
qed

lemma clear_id: "list_all (\<lambda>item. nearnessTags item = []) its \<Longrightarrow> clearNearnessTagPoints its = its"
  by (induction its) (simp_all add: clearNearnessTagPoints_def)

lemma concat_clearGroups:
  "concat (map Items (clearGroups G)) = clearNearnessTagPoints (concat (map Items G))"
  by (induction G) (simp_all add: clearGroups_def clearNearnessTagPoints_def)

lemma mset_clear: "mset xs = mset ys \<Longrightarrow> mset (clearNearnessTagPoints xs) = mset (clearNearnessTagPoints ys)"
  unfolding clearNearnessTagPoints_def by (metis mset_map)

text \<open>
  C1. Partition invariant. The state that \<open>getRandomState\<close> builds holds every item of
  the input exactly once and leaves none unplaced; each move of an item into another
  group and each swap of two items of different groups, at the indices that the loops of
  \<open>getBestNextStateFrom\<close> range over, keeps the multiset of the placed items, and so
  does the state that \<open>getBestNextStateFrom\<close> returns; and the groups that a successful
  \<open>run\<close> returns hold, as a multiset, exactly the items of the input (with
  \<open>nearnessTags\<close> cleared, as the deferred \<open>clearNearnessTagPoints\<close> leaves them; that
  is the input itself when it carries no cached points).
\<close>

theorem partition_invariant:
  "(\<forall>cp s perm'. getRandomState parseFloat its rules gs cp = Inr (Some s, perm')
       \<longrightarrow> mset (concat (map Items (Groups s))) = mset its \<and> ItemsNotInGroups s = [])
   \<and> (\<forall>st gIndex1 gIndex2 i.
         gIndex1 < length (Groups st) \<and> gIndex2 < length (Groups st) \<and> gIndex1 \<noteq> gIndex2
         \<and> i < length (Items (Groups st ! gIndex1))
       \<longrightarrow> mset (concat (map Items (Groups (moveItem gIndex1 i gIndex2 st))))
             = mset (concat (map Items (Groups st)))
           \<and> (\<forall>i2. i2 < length (Items (Groups st ! gIndex2))
                \<longrightarrow> mset (concat (map Items (Groups (swapItems gIndex1 i gIndex2 i2 st))))
                      = mset (concat (map Items (Groups st)))))
   \<and> (\<forall>src b. getBestNextStateFrom parseFloat its rules src = Inr b
       \<longrightarrow> mset (concat (map Items (Groups b))) = mset (concat (map Items (Groups src)))
           \<and> ItemsNotInGroups b = ItemsNotInGroups src)
   \<and> (\<forall>res. run parseFloat ctxDone its rules gs = Inr res
       \<longrightarrow> mset (concat (map Items res)) = mset (clearNearnessTagPoints its)
           \<and> (list_all (\<lambda>item. nearnessTags item = []) its
                \<longrightarrow> mset (concat (map Items res)) = mset its))"
proof (intro conjI allI impI)
  fix cp s perm'
  assume "getRandomState parseFloat its rules gs cp = Inr (Some s, perm')"
  then have sc: "scatter parseFloat its rules gs perm' = Inr s"
    by (rule getRandomState_scatter)
  from scatter_props(1)[OF sc] show "mset (concat (map Items (Groups s))) = mset its"
    by (simp add: placed_concat)
  from scatter_props(2)[OF sc] show "ItemsNotInGroups s = []" .
next
  fix st :: State and gIndex1 gIndex2 i
  assume a: "gIndex1 < length (Groups st) \<and> gIndex2 < length (Groups st) \<and> gIndex1 \<noteq> gIndex2
         \<and> i < length (Items (Groups st ! gIndex1))"
  then have "placed (moved gIndex1 i gIndex2 (Groups st)) = placed (Groups st)"
    by (simp add: placed_moved)
  then show "mset (concat (map Items (Groups (moveItem gIndex1 i gIndex2 st))))
             = mset (concat (map Items (Groups st)))"
    by (simp add: placed_concat)
  fix i2
  assume "i2 < length (Items (Groups st ! gIndex2))"
  with a have "placed (swapped gIndex1 i gIndex2 i2 (Groups st)) = placed (Groups st)"
    by (simp add: placed_swapped)
  then show "mset (concat (map Items (Groups (swapItems gIndex1 i gIndex2 i2 st))))
             = mset (concat (map Items (Groups st)))"
    by (simp add: placed_concat)
next
  fix src b
  assume "getBestNextStateFrom parseFloat its rules src = Inr b"
  then have g: "goodOption parseFloat its rules src b"
    by (rule getBestNextStateFrom_char)
  from goodOption_props(1)[OF g]
  show "mset (concat (map Items (Groups b))) = mset (concat (map Items (Groups src)))"
    by (simp add: placed_concat)
  from goodOption_props(4)[OF g] show "ItemsNotInGroups b = ItemsNotInGroups src" .
next
  fix res
  assume r: "run parseFloat ctxDone its rules gs = Inr res"
  let ?its = "populateNearnessTagPoints parseFloat rules its"
  have "\<exists>r :: State. placed (Groups r) = mset ?its \<and> res = clearGroups (Groups r)"
  proof (rule run_invariant[where P = "\<lambda>st. placed (Groups st) = mset ?its", OF r])
    fix perm s
    assume "scatter parseFloat ?its rules gs perm = Inr s"
    then show "placed (Groups s) = mset ?its"
      by (rule scatter_props(1))
  next
    fix s b
    assume "placed (Groups s) = mset ?its" "getBestNextStateFrom parseFloat ?its rules s = Inr b"
    then show "placed (Groups b) = mset ?its"
      by (auto dest!: getBestNextStateFrom_char goodOption_props(1))
  qed
  then obtain st :: State where st: "placed (Groups st) = mset ?its" "res = clearGroups (Groups st)"
    by blast
  from st(1) have "mset (concat (map Items (Groups st))) = mset ?its"
    by (simp add: placed_concat)
  then have "mset (clearNearnessTagPoints (concat (map Items (Groups st))))
               = mset (clearNearnessTagPoints ?its)"
    by (rule mset_clear)
  with st(2) have "mset (concat (map Items res)) = mset (clearNearnessTagPoints ?its)"
    by (simp add: concat_clearGroups)
  then show 1: "mset (concat (map Items res)) = mset (clearNearnessTagPoints its)"
    by (simp add: clear_populate)
  assume "list_all (\<lambda>item. nearnessTags item = []) its"
  with 1 show "mset (concat (map Items res)) = mset its"
    by (simp add: clear_id)
qed

section \<open>The capacity invariant\<close>

lemma templates_clearGroups [simp]: "templates (clearGroups G) = templates G"
  by (simp add: templates_def clearGroups_def)

lemma withinMax_clearGroups [simp]: "withinMax (clearGroups G) = withinMax G"
  by (simp add: withinMax_def clearGroups_def clearNearnessTagPoints_def list_all_iff)

lemma undersized_clearGroups [simp]: "list_ex undersized (clearGroups G) = list_ex undersized G"
  by (simp add: undersized_def clearGroups_def clearNearnessTagPoints_def list_ex_iff)






section \<open>Examples of the partition invariant\<close>

lemma wrap64_small: "- (2 ^ 63) \<le> i \<Longrightarrow> i < 2 ^ 63 \<Longrightarrow> wrap64 i = i"
  unfolding wrap64_def by (simp add: signed_of_int signed_take_bit_int_eq_self)

lemmas eval_defs = run_def validateInput_def numSlots_def populateNearnessTagPoints_def
  getRandomState_def scatter_def CalculateScore_def CalculateCurrentScore_def IsTerminal_def
  undersized_def getBestNextStateFrom_def State_Copy_def tryGroup_def clearGroups_def
  clearNearnessTagPoints_def MaxFloat64_def f64_gt_def Let_def moveItem_def swapItems_def
  samenessGroup_def tagOccurrencesInGroup_def tagValue_def f64_of_int_def wrap64_small
  roundRobin.simps iLoop.simps numeral_2_eq_2 background_def doneAfter_def

lemma ex_getRandomState:
  "getRandomState parseFloat [exItem ''a'', exItem ''b''] exRules [exGroup ''g1'' [], exGroup ''g2'' []] None
   = Inr (Some exState0, [0, 0])"
  by (simp add: eval_defs)

lemma ex_getBestNextStateFrom:
  "getBestNextStateFrom parseFloat [exItem ''a'', exItem ''b''] exRules exState0 = Inr exState1"
  by (simp add: eval_defs)

lemma ex_run:
  "run parseFloat (doneAfter 1) [exItem ''a'', exItem ''b''] exRules [exGroup ''g1'' [], exGroup ''g2'' []]
   = Inr (Groups exState0)"
proof -
  have "runLoop parseFloat (doneAfter 1) [exItem ''a'', exItem ''b''] exRules
          [exGroup ''g1'' [], exGroup ''g2'' []] 0 exState0 exState0 {} [0, 0] = Inr exState0"
    apply (subst runLoop.simps)
    apply (simp add: ex_getBestNextStateFrom doneAfter_def f64_gt_def Let_def)
    apply (subst runLoop.simps)
    apply (simp add: doneAfter_def)
    done
  moreover have "populateNearnessTagPoints parseFloat exRules [exItem ''a'', exItem ''b'']
                   = [exItem ''a'', exItem ''b'']"
    by (simp add: populateNearnessTagPoints_def)
  ultimately show ?thesis
    by (simp add: run_def validateInput_def numSlots_def wrap64_small ex_getRandomState
        clearGroups_def clearNearnessTagPoints_def)
qed

theorem partition_invariant_witness:
  "getRandomState parseDecimal [exItem ''a'', exItem ''b''] exRules [exGroup ''g1'' [], exGroup ''g2'' []] None
     = Inr (Some exState0, [0, 0])
   \<and> mset (concat (map Items (Groups exState0))) = mset [exItem ''a'', exItem ''b'']
   \<and> ItemsNotInGroups exState0 = []
   \<and> Groups (moveItem 0 0 1 exState0) = [exGroup ''g1'' [], exGroup ''g2'' [exItem ''b'', exItem ''a'']]
   \<and> mset (concat (map Items (Groups (moveItem 0 0 1 exState0))))
     = mset (concat (map Items (Groups exState0)))
   \<and> Groups (swapItems 0 0 1 0 exState0) = [exGroup ''g1'' [exItem ''b''], exGroup ''g2'' [exItem ''a'']]
   \<and> mset (concat (map Items (Groups (swapItems 0 0 1 0 exState0))))
     = mset (concat (map Items (Groups exState0)))
   \<and> getBestNextStateFrom parseDecimal [exItem ''a'', exItem ''b''] exRules exState0 = Inr exState1
   \<and> mset (concat (map Items (Groups exState1))) = mset (concat (map Items (Groups exState0)))
   \<and> ItemsNotInGroups exState1 = ItemsNotInGroups exState0
   \<and> run parseDecimal (doneAfter 1) [exItem ''a'', exItem ''b''] exRules
        [exGroup ''g1'' [], exGroup ''g2'' []]
     = Inr [exGroup ''g1'' [exItem ''a''], exGroup ''g2'' [exItem ''b'']]
   \<and> mset (concat (map Items [exGroup ''g1'' [exItem ''a''], exGroup ''g2'' [exItem ''b'']]))
     = mset [exItem ''a'', exItem ''b'']"
proof -
  note t = partition_invariant[of parseDecimal "[exItem ''a'', exItem ''b'']" exRules
      "[exGroup ''g1'' [], exGroup ''g2'' []]" "doneAfter 1"]
  note a = ex_getRandomState[of parseDecimal] and b = ex_getBestNextStateFrom[of parseDecimal]
    and c = ex_run[of parseDecimal]
  from t a have 1: "mset (concat (map Items (Groups exState0))) = mset [exItem ''a'', exItem ''b'']"
    "ItemsNotInGroups exState0 = []"
    by blast+
  from t b have 2: "mset (concat (map Items (Groups exState1))) = mset (concat (map Items (Groups exState0)))"
    "ItemsNotInGroups exState1 = ItemsNotInGroups exState0"
    by blast+
  have nt: "list_all (\<lambda>item. nearnessTags item = []) [exItem ''a'', exItem ''b'']"
    by simp
  from t c nt
  have 3: "mset (concat (map Items (Groups exState0))) = mset [exItem ''a'', exItem ''b'']"
    by blast
  have ix: "(0::nat) < length (Groups exState0) \<and> (1::nat) < length (Groups exState0) \<and> (0::nat) \<noteq> 1
         \<and> (0::nat) < length (Items (Groups exState0 ! 0))"
    "(0::nat) < length (Items (Groups exState0 ! 1))"
    by simp_all
  from t ix have 4: "mset (concat (map Items (Groups (moveItem 0 0 1 exState0))))
     = mset (concat (map Items (Groups exState0)))"
    by blast
  from t ix have 5: "mset (concat (map Items (Groups (swapItems 0 0 1 0 exState0))))
     = mset (concat (map Items (Groups exState0)))"
    by blast
  have 6: "Groups (moveItem 0 0 1 exState0) = [exGroup ''g1'' [], exGroup ''g2'' [exItem ''b'', exItem ''a'']]"
    "Groups (swapItems 0 0 1 0 exState0) = [exGroup ''g1'' [exItem ''b''], exGroup ''g2'' [exItem ''a'']]"
    by (simp_all add: moved_def swapped_def)
  from a b c 1 2 3 4 5 6 show ?thesis
    by simp
qed

section \<open>Examples of the capacity invariant\<close>








section \<open>Validation of the capacity\<close>

lemma slotsFit_butlast: "slotsFit (gs @ [g]) \<Longrightarrow> slotsFit gs"
  unfolding slotsFit_def list_all_iff
proof
  fix k assume a: "\<forall>k \<in> set [0 ..< Suc (length (gs @ [g]))].
       - (2 ^ 63) \<le> sum_list (map MaxSize (take k (gs @ [g])))
     \<and> sum_list (map MaxSize (take k (gs @ [g]))) < 2 ^ 63"
    and k: "k \<in> set [0 ..< Suc (length gs)]"
  from k have "k \<in> set [0 ..< Suc (length (gs @ [g]))]" "take k (gs @ [g]) = take k gs"
    by auto
  with a show "- (2 ^ 63) \<le> sum_list (map MaxSize (take k gs))
     \<and> sum_list (map MaxSize (take k gs)) < 2 ^ 63"
    by metis
qed

lemma slotsFit_total:
  "slotsFit gs \<Longrightarrow> - (2 ^ 63) \<le> sum_list (map MaxSize gs) \<and> sum_list (map MaxSize gs) < 2 ^ 63"
  unfolding slotsFit_def list_all_iff
  by (drule bspec[where x = "length gs"]) simp_all

lemma numSlots_sum: "slotsFit gs \<Longrightarrow> numSlots gs = sum_list (map MaxSize gs)"
proof (induction gs rule: rev_induct)
  case Nil
  show ?case by (simp add: numSlots_def wrap64_small)
next
  case (snoc g gs)
  from snoc.prems have "slotsFit gs" by (rule slotsFit_butlast)
  with snoc.IH have "numSlots gs = sum_list (map MaxSize gs)" .
  moreover from slotsFit_total[OF snoc.prems]
  have "wrap64 (sum_list (map MaxSize gs) + MaxSize g) = sum_list (map MaxSize gs) + MaxSize g"
    by (intro wrap64_small) simp_all
  ultimately show ?case
    by (simp add: numSlots_def)
qed

lemma run_BadConfiguration:
  "numSlots gs < int (length its)
   \<Longrightarrow> run parseFloat ctxDone its rules gs = Inl (BadConfiguration (length its) (numSlots gs))"
  by (simp add: run_def validateInput_def)

lemma validateInput_sum:
  assumes "slotsFit gs"
  shows "(sum_list (map MaxSize gs) < int (length its)
            \<longrightarrow> run parseFloat ctxDone its rules gs
                  = Inl (BadConfiguration (length its) (sum_list (map MaxSize gs))))
       \<and> (\<not> sum_list (map MaxSize gs) < int (length its) \<longrightarrow> validateInput its gs = None)"
  using numSlots_sum[OF assms] by (simp add: run_BadConfiguration validateInput_def)

text \<open>
  C7 at an input where the total overflows. One item and two groups whose \<open>MaxSize\<close> is
  \<open>math.MaxInt64\<close>: the sum of the \<open>MaxSize\<close>s is far above the number of items, but
  \<open>numSlots\<close> wraps around to \<open>-2\<close> and validation reports a bad configuration, for every
  context, rule list and library call.
\<close>

theorem validateInput_overflow:
  "int (length [bareItem ''a'']) \<le> sum_list (map MaxSize [openGroup ''g1'', openGroup ''g2''])
   \<and> numSlots [openGroup ''g1'', openGroup ''g2''] = - 2
   \<and> validateInput [bareItem ''a''] [openGroup ''g1'', openGroup ''g2''] = Some (BadConfiguration 1 (- 2))
   \<and> run parseFloat ctxDone [bareItem ''a''] rules [openGroup ''g1'', openGroup ''g2'']
     = Inl (BadConfiguration 1 (- 2))"
proof -
  have "wrap64 18446744073709551614 = - 2"
    unfolding wrap64_def by (simp add: signed_of_int signed_take_bit_eq_take_bit_minus take_bit_eq_mod bit_iff_odd)
  then have n: "numSlots [openGroup ''g1'', openGroup ''g2''] = - 2"
    by (simp add: numSlots_def wrap64_small)
  then show ?thesis
    by (simp add: run_def validateInput_def)
qed

section \<open>The heuristic and the reject score at concrete states\<close>

lemmas score_defs = CalculateScore_def CalculateCurrentScore_def CalculateMaxPotentialScore_def
  IsTerminal_def undersized_def samenessGroup_def nearnessGroup_def tagOccurrencesInGroup_def
  tagValue_def f64_of_int_def f64_sub_def getGroupDistribution_def getDistribution_def
  maxDistributionForTag_def populateNearnessTagPoints_def populateItem_def parsePoint_def
  parseDecimal_def isDigit_def less_eq_char_def Let_def wrap64_small


text \<open>
  C6 at two terminal states of one run. The only item is at the place \<open>1,1\<close>, so the
  spread of all places is \<open>0\<close>. With the item in the group that needs two items the
  state scores \<open>-math.MaxFloat64\<close>. With the item in the other group no group is below
  its \<open>MinSize\<close>, and the score is NaN, since the spread of each group is divided by the
  spread of all places: the reject score is not at or below it, and the comparison
  \<open>s.Score > bestOption.Score\<close> of \<open>getBestNextStateFrom\<close> is false for it. So from the
  state with the group below its \<open>MinSize\<close> the search with this rule returns that
  state itself, while the search without a rule moves on to the other state.
\<close>

theorem reject_score_not_below_NaN:
  "populateNearnessTagPoints parseDecimal placeRules [placeItem ''a''] = [placedItem ''a'']
   \<and> list_ex undersized [pairGroup ''g1'' [placedItem ''a''], anyGroup ''g2'' []]
   \<and> CalculateScore parseDecimal [placedItem ''a''] placeRules
        \<lparr>Groups = [pairGroup ''g1'' [placedItem ''a''], anyGroup ''g2'' []],
         ItemsNotInGroups = [], Score = Finite 0\<rparr>
     = Inr (f64_neg MaxFloat64)
   \<and> \<not> list_ex undersized [pairGroup ''g1'' [], anyGroup ''g2'' [placedItem ''a'']]
   \<and> CalculateScore parseDecimal [placedItem ''a''] placeRules
        \<lparr>Groups = [pairGroup ''g1'' [], anyGroup ''g2'' [placedItem ''a'']],
         ItemsNotInGroups = [], Score = Finite 0\<rparr>
     = Inr NaN
   \<and> \<not> f64_le (f64_neg MaxFloat64) NaN
   \<and> \<not> f64_gt NaN (f64_neg MaxFloat64)
   \<and> getBestNextStateFrom parseDecimal [placedItem ''a''] placeRules
        \<lparr>Groups = [pairGroup ''g1'' [placedItem ''a''], anyGroup ''g2'' []],
         ItemsNotInGroups = [], Score = f64_neg MaxFloat64\<rparr>
     = Inr \<lparr>Groups = [pairGroup ''g1'' [placedItem ''a''], anyGroup ''g2'' []],
            ItemsNotInGroups = [], Score = f64_neg MaxFloat64\<rparr>
   \<and> getBestNextStateFrom parseDecimal [placedItem ''a''] []
        \<lparr>Groups = [pairGroup ''g1'' [placedItem ''a''], anyGroup ''g2'' []],
         ItemsNotInGroups = [], Score = f64_neg MaxFloat64\<rparr>
     = Inr \<lparr>Groups = [pairGroup ''g1'' [], anyGroup ''g2'' [placedItem ''a'']],
            ItemsNotInGroups = [], Score = Finite 0\<rparr>"
  by (simp add: eval_defs score_defs f64_le_def)

section \<open>Relationship rules\<close>









end
